theory Spec2Isabelle
  imports Main "HOL-Library.Char_ord" "HOL-Library.List_Lexorder"
begin

section \<open>The relational store\<close>

text \<open>
  The application keeps all of its state in MySQL tables and reaches them through
  \<^verbatim>\<open>execute_query\<close> only. A table is the list of its rows, a row is a record of
  its columns, a nullable column is an \<open>option\<close>. Timestamps and dates are natural
  numbers (seconds, days). Strings are compared for exact equality.
\<close>

record user_row =
  user_id :: nat
  username :: string
  full_name :: string
  email :: string
  department :: string
  password_hash :: "string option"
  role :: string
  user_created_at :: nat

record department_row =
  department_id :: nat
  department_name :: string
  department_description :: string

record status_row =
  status_id :: nat
  status_name :: string
  display_order :: nat

record task_row =
  task_id :: nat
  task_title :: string
  task_description :: string
  task_assignee_id :: "nat option"
  task_reporter_id :: nat
  task_status_id :: nat
  task_priority :: string
  task_deadline :: "nat option"
  task_department_id :: nat

record comment_row =
  comment_id :: nat
  comment_task_id :: nat
  comment_user_id :: nat
  comment_text :: string
  comment_created_at :: nat

record grant_row =
  grant_id :: nat
  grant_user_id :: nat
  grant_department_id :: nat
  can_view :: bool
  can_edit :: bool

record notification_row =
  notification_id :: nat
  notification_user_id :: nat
  notification_content :: string
  notification_link :: "string option"
  is_read :: bool
  notification_created_at :: nat

record mention_row =
  mention_comment_id :: nat
  mention_user_id :: nat
  mention_is_read :: bool

text \<open>The kind of statement that a call of \<^verbatim>\<open>execute_query\<close> sends.\<close>

datatype sql = SELECT | INSERT | UPDATE

text \<open>
  The store. Besides the tables it holds
  \<^item> \<open>now\<close>, the value of \<^verbatim>\<open>CURRENT_TIMESTAMP\<close>;
  \<^item> \<open>faults\<close>, which says for the statements to come whether the connection or the
    statement fails (\<open>True\<close>: it fails); after the end of the list nothing fails;
  \<^item> \<open>issued\<close>, the kinds of the statements that \<^verbatim>\<open>execute_query\<close> has been called
    with so far, oldest first. The program never reads it.
\<close>

record db =
  users :: "user_row list"
  departments :: "department_row list"
  statuses :: "status_row list"
  tasks :: "task_row list"
  comments :: "comment_row list"
  user_department_permissions :: "grant_row list"
  notifications :: "notification_row list"
  user_mentions :: "mention_row list"
  now :: nat
  faults :: "bool list"
  issued :: "sql list"

text \<open>
  \<^verbatim>\<open>execute_query(query, params, fetch)\<close>: opens a connection, runs the statement and
  returns the fetched rows (\<^verbatim>\<open>fetch=True\<close>) or \<^verbatim>\<open>True\<close> after the commit; when
  the connection cannot be opened or the statement raises \<^verbatim>\<open>Error\<close> it returns
  \<^verbatim>\<open>None\<close> and nothing is committed. The statement itself is the argument \<open>run\<close>:
  it maps the tables to its result and the new tables, or to \<open>None\<close> when the store
  rejects it (a violated constraint).
\<close>

definition next_fails :: "db \<Rightarrow> bool" where
  "next_fails d = (case faults d of [] \<Rightarrow> False | f # _ \<Rightarrow> f)"

definition execute_query :: "sql \<Rightarrow> (db \<Rightarrow> ('a \<times> db) option) \<Rightarrow> db \<Rightarrow> 'a option \<times> db" where
  "execute_query kind run d =
     (let d1 = d\<lparr>faults := tl (faults d), issued := issued d @ [kind]\<rparr>
      in if next_fails d then (None, d1)
         else (case run d1 of None \<Rightarrow> (None, d1) | Some (r, d2) \<Rightarrow> (Some r, d2)))"

text \<open>Python's truth value of a query result: \<^verbatim>\<open>None\<close> and the empty list are false.\<close>

definition truthy :: "'a list option \<Rightarrow> bool" where
  "truthy result = (case result of None \<Rightarrow> False | Some rows \<Rightarrow> rows \<noteq> [])"

text \<open>\<^verbatim>\<open>result or []\<close>.\<close>

definition or_empty :: "'a list option \<Rightarrow> 'a list" where
  "or_empty result = (case result of None \<Rightarrow> [] | Some rows \<Rightarrow> rows)"

section \<open>Permission engine\<close>

text \<open>
  \<^verbatim>\<open>check_department_access(user_id, department_id)\<close>:
  \<^verbatim>\<open>SELECT can_view FROM user_department_permissions
  WHERE user_id = %s AND department_id = %s AND can_view = TRUE\<close>, then \<^verbatim>\<open>bool(result)\<close>.
\<close>

definition select_can_view :: "nat \<Rightarrow> nat \<Rightarrow> db \<Rightarrow> (bool list \<times> db) option" where
  "select_can_view uid dep d =
     Some (map can_view
             (filter (\<lambda>g. grant_user_id g = uid \<and> grant_department_id g = dep \<and> can_view g)
                (user_department_permissions d)), d)"

definition check_department_access :: "nat \<Rightarrow> nat \<Rightarrow> db \<Rightarrow> bool \<times> db" where
  "check_department_access uid dep d =
     (let (result, d1) = execute_query SELECT (select_can_view uid dep) d
      in (truthy result, d1))"

text \<open>
  Modelled from the spec: the source has no edit check (no statement reads
  \<^verbatim>\<open>can_edit\<close> to decide anything); the spec's \<^verbatim>\<open>canEdit(user, department)\<close> is
  the twin of \<^verbatim>\<open>check_department_access\<close> on the other flag: a grant row of the pair
  with \<^verbatim>\<open>can_edit\<close> true exists.
\<close>

definition select_can_edit :: "nat \<Rightarrow> nat \<Rightarrow> db \<Rightarrow> (bool list \<times> db) option" where
  "select_can_edit uid dep d =
     Some (map can_edit
             (filter (\<lambda>g. grant_user_id g = uid \<and> grant_department_id g = dep \<and> can_edit g)
                (user_department_permissions d)), d)"

definition check_department_edit :: "nat \<Rightarrow> nat \<Rightarrow> db \<Rightarrow> bool \<times> db" where
  "check_department_edit uid dep d =
     (let (result, d1) = execute_query SELECT (select_can_edit uid dep) d
      in (truthy result, d1))"

text \<open>
  \<^verbatim>\<open>get_user_accessible_departments(user_id)\<close>:
  \<^verbatim>\<open>SELECT d.id, d.name, d.description, udp.can_edit FROM departments d
  JOIN user_department_permissions udp ON d.id = udp.department_id
  WHERE udp.user_id = %s AND udp.can_view = TRUE ORDER BY d.name\<close>, then \<^verbatim>\<open>or []\<close>.
\<close>

record accessible_row =
  acc_id :: nat
  acc_name :: string
  acc_description :: string
  acc_can_edit :: bool

definition select_accessible :: "nat \<Rightarrow> db \<Rightarrow> (accessible_row list \<times> db) option" where
  "select_accessible uid d =
     Some (sort_key acc_name
             (concat (map (\<lambda>dp.
                map (\<lambda>g. \<lparr>acc_id = department_id dp, acc_name = department_name dp,
                          acc_description = department_description dp, acc_can_edit = can_edit g\<rparr>)
                  (filter (\<lambda>g. grant_department_id g = department_id dp \<and> grant_user_id g = uid
                                \<and> can_view g)
                     (user_department_permissions d)))
              (departments d))), d)"

definition get_user_accessible_departments :: "nat \<Rightarrow> db \<Rightarrow> accessible_row list \<times> db" where
  "get_user_accessible_departments uid d =
     (let (result, d1) = execute_query SELECT (select_accessible uid) d
      in (or_empty result, d1))"

section \<open>Notification inbox\<close>

text \<open>The next value of an \<^verbatim>\<open>AUTO_INCREMENT\<close> column.\<close>

definition next_id :: "nat list \<Rightarrow> nat" where
  "next_id ids = Suc (fold max ids 0)"

text \<open>
  \<^verbatim>\<open>add_notification(user_id, content, link)\<close>:
  \<^verbatim>\<open>INSERT INTO notifications (user_id, content, link, is_read) VALUES (%s, %s, %s, FALSE)\<close>.
\<close>

definition insert_notification :: "nat \<Rightarrow> string \<Rightarrow> string option \<Rightarrow> db \<Rightarrow> (unit \<times> db) option" where
  "insert_notification uid content link d =
     Some ((), d\<lparr>notifications := notifications d @
       [\<lparr>notification_id = next_id (map notification_id (notifications d)),
         notification_user_id = uid, notification_content = content,
         notification_link = link, is_read = False,
         notification_created_at = now d\<rparr>]\<rparr>)"

definition add_notification :: "nat \<Rightarrow> string \<Rightarrow> string option \<Rightarrow> db \<Rightarrow> unit option \<times> db" where
  "add_notification uid content link d = execute_query INSERT (insert_notification uid content link) d"

text \<open>
  \<^verbatim>\<open>get_user_notifications(user_id)\<close>:
  \<^verbatim>\<open>SELECT id, content, link, is_read, created_at FROM notifications
  WHERE user_id = %s ORDER BY created_at DESC LIMIT 50\<close>, then \<^verbatim>\<open>or []\<close>.
  The order among rows of one timestamp is the store's choice; the model keeps them in the
  reverse of a stable ascending sort.
\<close>

record inbox_row =
  inbox_id :: nat
  inbox_content :: string
  inbox_link :: "string option"
  inbox_is_read :: bool
  inbox_created_at :: nat

definition inbox_of :: "notification_row \<Rightarrow> inbox_row" where
  "inbox_of n = \<lparr>inbox_id = notification_id n, inbox_content = notification_content n,
                 inbox_link = notification_link n, inbox_is_read = is_read n,
                 inbox_created_at = notification_created_at n\<rparr>"

definition order_by_desc :: "('a \<Rightarrow> nat) \<Rightarrow> 'a list \<Rightarrow> 'a list" where
  "order_by_desc key rows = rev (sort_key key rows)"

definition select_notifications :: "nat \<Rightarrow> db \<Rightarrow> (inbox_row list \<times> db) option" where
  "select_notifications uid d =
     Some (map inbox_of
             (take 50 (order_by_desc notification_created_at
                (filter (\<lambda>n. notification_user_id n = uid) (notifications d)))), d)"

definition get_user_notifications :: "nat \<Rightarrow> db \<Rightarrow> inbox_row list \<times> db" where
  "get_user_notifications uid d =
     (let (result, d1) = execute_query SELECT (select_notifications uid) d
      in (or_empty result, d1))"

text \<open>
  \<^verbatim>\<open>get_unread_notification_count(user_id)\<close>:
  \<^verbatim>\<open>SELECT COUNT(*) as count FROM notifications WHERE user_id = %s AND is_read = FALSE\<close>,
  then \<^verbatim>\<open>result[0]['count'] if result else 0\<close>.
\<close>

definition select_unread_count :: "nat \<Rightarrow> db \<Rightarrow> (nat list \<times> db) option" where
  "select_unread_count uid d =
     Some ([length (filter (\<lambda>n. notification_user_id n = uid \<and> \<not> is_read n) (notifications d))], d)"

definition get_unread_notification_count :: "nat \<Rightarrow> db \<Rightarrow> nat \<times> db" where
  "get_unread_notification_count uid d =
     (let (result, d1) = execute_query SELECT (select_unread_count uid) d
      in (case result of Some (c # _) \<Rightarrow> c | _ \<Rightarrow> 0, d1))"

text \<open>
  \<^verbatim>\<open>mark_notification_read(notification_id)\<close>:
  \<^verbatim>\<open>UPDATE notifications SET is_read = TRUE WHERE id = %s\<close>.
\<close>

definition update_read :: "nat \<Rightarrow> db \<Rightarrow> (unit \<times> db) option" where
  "update_read nid d =
     Some ((), d\<lparr>notifications :=
       map (\<lambda>n. if notification_id n = nid then n\<lparr>is_read := True\<rparr> else n) (notifications d)\<rparr>)"

definition mark_notification_read :: "nat \<Rightarrow> db \<Rightarrow> unit option \<times> db" where
  "mark_notification_read nid d = execute_query UPDATE (update_read nid) d"

text \<open>
  \<^verbatim>\<open>mark_all_notifications_read(user_id)\<close>:
  \<^verbatim>\<open>UPDATE notifications SET is_read = TRUE WHERE user_id = %s\<close>.
\<close>

definition update_all_read :: "nat \<Rightarrow> db \<Rightarrow> (unit \<times> db) option" where
  "update_all_read uid d =
     Some ((), d\<lparr>notifications :=
       map (\<lambda>n. if notification_user_id n = uid then n\<lparr>is_read := True\<rparr> else n) (notifications d)\<rparr>)"

definition mark_all_notifications_read :: "nat \<Rightarrow> db \<Rightarrow> unit option \<times> db" where
  "mark_all_notifications_read uid d = execute_query UPDATE (update_all_read uid) d"

section \<open>Comment and mention engine\<close>

text \<open>
  \<^verbatim>\<open>get_all_users()\<close>:
  \<^verbatim>\<open>SELECT id, username, full_name, email, department, created_at FROM users
  ORDER BY full_name\<close>. The result is returned as it is: \<^verbatim>\<open>None\<close> when the query
  failed.
\<close>

record listed_user =
  listed_id :: nat
  listed_username :: string
  listed_full_name :: string
  listed_email :: string
  listed_department :: string
  listed_created_at :: nat

definition listed_of :: "user_row \<Rightarrow> listed_user" where
  "listed_of u = \<lparr>listed_id = user_id u, listed_username = username u,
                  listed_full_name = full_name u, listed_email = email u,
                  listed_department = department u, listed_created_at = user_created_at u\<rparr>"

definition select_all_users :: "db \<Rightarrow> (listed_user list \<times> db) option" where
  "select_all_users d = Some (map listed_of (sort_key full_name (users d)), d)"

definition get_all_users :: "db \<Rightarrow> listed_user list option \<times> db" where
  "get_all_users d = execute_query SELECT select_all_users d"

text \<open>
  The word characters of Python's \<^verbatim>\<open>\w\<close> in a \<^verbatim>\<open>str\<close> pattern: letters, digits and
  the underscore. A character of the model is a code point below 256; up to 127 these are
  \<^verbatim>\<open>[A-Za-z0-9_]\<close>, above they are the letters and numeric characters of Latin-1.
\<close>

definition is_word_char :: "char \<Rightarrow> bool" where
  "is_word_char c =
     (let n = (of_char c :: nat)
      in (48 \<le> n \<and> n \<le> 57) \<or> (65 \<le> n \<and> n \<le> 90) \<or> n = 95 \<or> (97 \<le> n \<and> n \<le> 122)
         \<or> n = 170 \<or> n = 178 \<or> n = 179 \<or> n = 181 \<or> n = 185 \<or> n = 186
         \<or> (188 \<le> n \<and> n \<le> 190) \<or> (192 \<le> n \<and> n \<le> 214) \<or> (216 \<le> n \<and> n \<le> 246)
         \<or> 248 \<le> n)"

text \<open>
  \<^verbatim>\<open>re.findall(r'@(\w+)', text)\<close>: the matches from left to right, none overlapping.
  At an \<^verbatim>\<open>@\<close> followed by a word character the match is the longest run of word
  characters and the scan goes on behind it; anywhere else the scan moves one character on.
\<close>

function find_mentions :: "string \<Rightarrow> string list" where
  "find_mentions [] = []"
| "find_mentions (c # cs) =
     (if c = CHR ''@'' \<and> takeWhile is_word_char cs \<noteq> []
      then takeWhile is_word_char cs # find_mentions (dropWhile is_word_char cs)
      else find_mentions cs)"
  by pat_completeness auto
termination
  by (relation "measure length") (auto simp: length_dropWhile_le le_imp_less_Suc)

text \<open>
  \<^verbatim>\<open>extract_mentions(text)\<close>. The dictionary comprehension
  \<^verbatim>\<open>{user['username']: user['id'] for user in all_users}\<close> keeps the last row of a
  username; on \<^verbatim>\<open>None\<close> it raises \<^verbatim>\<open>TypeError\<close>. The list comprehension keeps,
  in order, the id of every matched name that is a key.
\<close>

datatype py_error = TypeError

definition username_map :: "listed_user list \<Rightarrow> (string \<rightharpoonup> nat)" where
  "username_map all_users = map_of (rev (map (\<lambda>u. (listed_username u, listed_id u)) all_users))"

definition mentioned_user_ids :: "listed_user list \<Rightarrow> string \<Rightarrow> nat list" where
  "mentioned_user_ids all_users text =
     concat (map (\<lambda>name. case username_map all_users name of None \<Rightarrow> [] | Some i \<Rightarrow> [i])
               (find_mentions text))"

definition extract_mentions :: "string \<Rightarrow> db \<Rightarrow> (py_error + nat list) \<times> db" where
  "extract_mentions text d =
     (let (all_users, d1) = get_all_users d
      in (case all_users of
            None \<Rightarrow> Inl TypeError
          | Some rows \<Rightarrow> Inr (mentioned_user_ids rows text), d1))"

text \<open>
  \<^verbatim>\<open>add_comment(task_id, user_id, comment)\<close>: the \<^verbatim>\<open>INSERT INTO comments\<close> (its
  result is not looked at), then \<^verbatim>\<open>SELECT LAST_INSERT_ID() as id\<close> in a call of its
  own, and \<^verbatim>\<open>result[0]['id'] if result else None\<close>. The comments table declares foreign
  keys to tasks and users.

  MySQL keeps the value of \<^verbatim>\<open>LAST_INSERT_ID()\<close> per connection, and
  \<^verbatim>\<open>execute_query\<close> opens a connection for every call and closes it at the end: the
  \<^verbatim>\<open>SELECT\<close> runs on a connection that has inserted nothing, where the answer is 0.
\<close>

definition insert_comment :: "nat \<Rightarrow> nat \<Rightarrow> string \<Rightarrow> db \<Rightarrow> (unit \<times> db) option" where
  "insert_comment tid uid text d =
     (if tid \<in> task_id ` set (tasks d) \<and> uid \<in> user_id ` set (users d) then
        Some ((), d\<lparr>comments := comments d @
          [\<lparr>comment_id = next_id (map comment_id (comments d)), comment_task_id = tid,
            comment_user_id = uid, comment_text = text, comment_created_at = now d\<rparr>]\<rparr>)
      else None)"

definition select_last_insert_id :: "db \<Rightarrow> (nat list \<times> db) option" where
  "select_last_insert_id d = Some ([0], d)"

definition add_comment :: "nat \<Rightarrow> nat \<Rightarrow> string \<Rightarrow> db \<Rightarrow> nat option \<times> db" where
  "add_comment tid uid text d =
     (let (inserted, d1) = execute_query INSERT (insert_comment tid uid text) d;
          (result, d2) = execute_query SELECT select_last_insert_id d1
      in (case result of Some (i # _) \<Rightarrow> Some i | _ \<Rightarrow> None, d2))"

text \<open>
  \<^verbatim>\<open>add_mention(comment_id, user_id)\<close>:
  \<^verbatim>\<open>INSERT INTO user_mentions (comment_id, user_id, is_read) VALUES (%s, %s, FALSE)\<close>.
\<close>

definition insert_mention :: "nat \<Rightarrow> nat \<Rightarrow> db \<Rightarrow> (unit \<times> db) option" where
  "insert_mention cid uid d =
     Some ((), d\<lparr>user_mentions := user_mentions d @
       [\<lparr>mention_comment_id = cid, mention_user_id = uid, mention_is_read = False\<rparr>]\<rparr>)"

definition add_mention :: "nat \<Rightarrow> nat \<Rightarrow> db \<Rightarrow> unit option \<times> db" where
  "add_mention cid uid d = execute_query INSERT (insert_mention cid uid) d"

text \<open>\<^verbatim>\<open>str(n)\<close> for a natural number: its decimal digits.\<close>

fun str_nat :: "nat \<Rightarrow> string" where
  "str_nat n =
     (if n < 10 then [char_of (48 + n)] else str_nat (n div 10) @ [char_of (48 + n mod 10)])"

text \<open>
  The comment form of \<^verbatim>\<open>show_department_tasks\<close>, for the task shown (its id and
  title) and the user of the session (id and full name). The loop over
  \<^verbatim>\<open>mentioned_users\<close> is \<open>notify_mentions\<close>; the results of \<^verbatim>\<open>add_mention\<close> and
  \<^verbatim>\<open>add_notification\<close> are not looked at. \<^verbatim>\<open>if comment_id and mentioned_users\<close> is
  false for \<^verbatim>\<open>None\<close>, for the id 0 and for the empty list.
\<close>

definition mention_content :: "string \<Rightarrow> string \<Rightarrow> string" where
  "mention_content session_full_name title =
     session_full_name @ '' mentioned you in a comment on task '' @ [CHR 0x27] @ title @ [CHR 0x27]"

definition task_link :: "nat \<Rightarrow> string" where
  "task_link tid = ''/task/'' @ str_nat tid"

fun notify_mentions :: "nat \<Rightarrow> string \<Rightarrow> string \<Rightarrow> nat list \<Rightarrow> db \<Rightarrow> db" where
  "notify_mentions cid content link [] d = d"
| "notify_mentions cid content link (uid # rest) d =
     (let (mentioned, d1) = add_mention cid uid d;
          (notified, d2) = add_notification uid content (Some link) d1
      in notify_mentions cid content link rest d2)"

datatype comment_result = Comment_added | Nothing_submitted

definition submit_comment ::
  "nat \<Rightarrow> string \<Rightarrow> nat \<Rightarrow> string \<Rightarrow> string \<Rightarrow> db \<Rightarrow> (py_error + comment_result) \<times> db" where
  "submit_comment session_user_id session_full_name tid title body d =
     (if body \<noteq> [] then
        (case extract_mentions body d of
           (Inl e, d1) \<Rightarrow> (Inl e, d1)
         | (Inr mentioned_users, d1) \<Rightarrow>
             (let (cid, d2) = add_comment tid session_user_id body d1
              in (Inr Comment_added,
                  case cid of
                    Some i \<Rightarrow>
                      if i \<noteq> 0 \<and> mentioned_users \<noteq> []
                      then notify_mentions i (mention_content session_full_name title)
                             (task_link tid) mentioned_users d2
                      else d2
                  | None \<Rightarrow> d2)))
      else (Inr Nothing_submitted, d))"

section \<open>Credential store\<close>

text \<open>
  \<^verbatim>\<open>hashlib.sha256(data).hexdigest()\<close>. The digest function is a parameter
  \<open>sha256\<close> that gives the digest of a string as a number; \<open>hexdigest\<close> writes its low
  256 bits as 64 lowercase hexadecimal digits, as the library does.
\<close>

type_synonym digest = "string \<Rightarrow> nat"

definition hex_char :: "nat \<Rightarrow> char" where
  "hex_char n = ''0123456789abcdef'' ! (n mod 16)"

fun hex_digits :: "nat \<Rightarrow> nat \<Rightarrow> string" where
  "hex_digits 0 n = []"
| "hex_digits (Suc k) n = hex_digits k (n div 16) @ [hex_char n]"

definition hexdigest :: "nat \<Rightarrow> string" where
  "hexdigest n = hex_digits 64 n"

text \<open>\<^verbatim>\<open>hash_password(password)\<close>: \<^verbatim>\<open>hashlib.sha256(password.encode()).hexdigest()\<close>.\<close>

definition hash_password :: "digest \<Rightarrow> string \<Rightarrow> string" where
  "hash_password sha256 password = hexdigest (sha256 password)"

text \<open>
  \<^verbatim>\<open>verify_user(username, password)\<close>:
  \<^verbatim>\<open>SELECT id, username, full_name, role FROM users
  WHERE username = %s AND password_hash = %s\<close> with the plain digest of the password, then
  \<^verbatim>\<open>user[0]\<close> when there is a row and \<^verbatim>\<open>None\<close> otherwise.
\<close>

record login_row =
  login_id :: nat
  login_username :: string
  login_full_name :: string
  login_role :: string

definition login_of :: "user_row \<Rightarrow> login_row" where
  "login_of u = \<lparr>login_id = user_id u, login_username = username u,
                 login_full_name = full_name u, login_role = role u\<rparr>"

definition select_login :: "string \<Rightarrow> string \<Rightarrow> db \<Rightarrow> (login_row list \<times> db) option" where
  "select_login uname hashed_pwd d =
     Some (map login_of
             (filter (\<lambda>u. username u = uname \<and> password_hash u = Some hashed_pwd) (users d)), d)"

definition verify_user :: "digest \<Rightarrow> string \<Rightarrow> string \<Rightarrow> db \<Rightarrow> login_row option \<times> db" where
  "verify_user sha256 uname password d =
     (let hashed_pwd = hash_password sha256 password;
          (user, d1) = execute_query SELECT (select_login uname hashed_pwd) d
      in (case user of Some (row # _) \<Rightarrow> Some row | _ \<Rightarrow> None, d1))"

text \<open>
  \<^verbatim>\<open>SELECT id FROM users WHERE username = %s\<close>, the pre-check of the registration
  forms.
\<close>

definition select_user_id :: "string \<Rightarrow> db \<Rightarrow> (nat list \<times> db) option" where
  "select_user_id uname d = Some (map user_id (filter (\<lambda>u. username u = uname) (users d)), d)"

text \<open>
  \<^verbatim>\<open>INSERT INTO users (username, full_name, email, department, password_hash[, role])\<close>.
  The table declares \<^verbatim>\<open>username VARCHAR(50) NOT NULL UNIQUE\<close>: the store rejects a row
  whose username is taken. \<^verbatim>\<open>id\<close> is \<^verbatim>\<open>AUTO_INCREMENT\<close>, \<^verbatim>\<open>created_at\<close>
  defaults to the current timestamp.

  The columns are \<^verbatim>\<open>username VARCHAR(50)\<close>, \<^verbatim>\<open>full_name VARCHAR(100)\<close>,
  \<^verbatim>\<open>email VARCHAR(100)\<close>, \<^verbatim>\<open>department VARCHAR(100)\<close>,
  \<^verbatim>\<open>password_hash VARCHAR(64)\<close> and \<^verbatim>\<open>role VARCHAR(20)\<close>. The store is taken in
  MySQL's default strict mode: a statement with a value longer than its column is
  rejected (without strict mode the value would be cut to the width).
\<close>

definition fits_users_columns ::
  "string \<Rightarrow> string \<Rightarrow> string \<Rightarrow> string \<Rightarrow> string \<Rightarrow> string \<Rightarrow> bool" where
  "fits_users_columns uname fname mail dept hashed_pwd rl =
     (length uname \<le> 50 \<and> length fname \<le> 100 \<and> length mail \<le> 100 \<and> length dept \<le> 100
      \<and> length hashed_pwd \<le> 64 \<and> length rl \<le> 20)"

definition insert_user ::
  "string \<Rightarrow> string \<Rightarrow> string \<Rightarrow> string \<Rightarrow> string \<Rightarrow> string \<Rightarrow> db \<Rightarrow> (unit \<times> db) option" where
  "insert_user uname fname mail dept hashed_pwd rl d =
     (if uname \<in> username ` set (users d) then None
      else if \<not> fits_users_columns uname fname mail dept hashed_pwd rl then None
      else Some ((), d\<lparr>users := users d @
             [\<lparr>user_id = next_id (map user_id (users d)), username = uname, full_name = fname,
               email = mail, department = dept, password_hash = Some hashed_pwd, role = rl,
               user_created_at = now d\<rparr>]\<rparr>))"

text \<open>
  The registration form of \<^verbatim>\<open>login_page\<close>, once \<^verbatim>\<open>register_submitted\<close> is true.
  The role is the column default \<^verbatim>\<open>'user'\<close>. When the insert fails the page shows
  nothing of its own (\<^verbatim>\<open>execute_query\<close> has shown the store's error).
\<close>

datatype register_result =
  Account_created | Username_already_exists | Passwords_do_not_match | All_fields_required
  | Insert_failed

definition register_user ::
  "digest \<Rightarrow> string \<Rightarrow> string \<Rightarrow> string \<Rightarrow> string \<Rightarrow> string \<Rightarrow> string \<Rightarrow> db
     \<Rightarrow> register_result \<times> db" where
  "register_user sha256 new_username new_full_name new_email new_department new_password
     confirm_password d =
     (if new_username \<noteq> [] \<and> new_full_name \<noteq> [] \<and> new_email \<noteq> [] \<and> new_password \<noteq> []
         \<and> confirm_password \<noteq> [] then
        if new_password = confirm_password then
          (let (existing_user, d1) = execute_query SELECT (select_user_id new_username) d
           in if truthy existing_user then (Username_already_exists, d1)
              else
                (let hashed_pwd = hash_password sha256 new_password;
                     (success, d2) = execute_query INSERT
                        (insert_user new_username new_full_name new_email new_department
                           hashed_pwd ''user'') d1
                 in (if success \<noteq> None then Account_created else Insert_failed, d2)))
        else (Passwords_do_not_match, d)
      else (All_fields_required, d))"

text \<open>
  \<^verbatim>\<open>add_team_member(username, full_name, email, department)\<close>: inserts the user with
  the digest of a random initial password (the parameter \<open>random_password\<close>) and returns
  the password, or \<^verbatim>\<open>None\<close> when the insert failed. It makes no pre-check.
\<close>

definition add_team_member ::
  "digest \<Rightarrow> string \<Rightarrow> string \<Rightarrow> string \<Rightarrow> string \<Rightarrow> string \<Rightarrow> db \<Rightarrow> string option \<times> db" where
  "add_team_member sha256 random_password uname fname mail dept d =
     (let hashed_pwd = hash_password sha256 random_password;
          (success, d1) = execute_query INSERT (insert_user uname fname mail dept hashed_pwd ''user'') d
      in (if success \<noteq> None then Some random_password else None, d1))"

text \<open>
  The form "Add Team Member" of \<^verbatim>\<open>team_members_page\<close> (second tab), once submitted:
  it calls \<^verbatim>\<open>add_team_member\<close> directly. \<^verbatim>\<open>if initial_password\<close> is false for
  \<^verbatim>\<open>None\<close> and for the empty string.
\<close>

datatype member_result = Member_added string | Member_not_added | Member_fields_required

definition add_member_form ::
  "digest \<Rightarrow> string \<Rightarrow> string \<Rightarrow> string \<Rightarrow> string \<Rightarrow> string \<Rightarrow> db \<Rightarrow> member_result \<times> db" where
  "add_member_form sha256 random_password uname fname mail dept d =
     (if uname \<noteq> [] \<and> fname \<noteq> [] \<and> mail \<noteq> [] then
        (let (initial_password, d1) = add_team_member sha256 random_password uname fname mail dept d
         in (case initial_password of
               Some p \<Rightarrow> if p \<noteq> [] then Member_added p else Member_not_added
             | None \<Rightarrow> Member_not_added, d1))
      else (Member_fields_required, d))"

text \<open>
  One row of the bulk upload of \<^verbatim>\<open>team_members_page\<close> (third tab): the pre-check,
  then \<^verbatim>\<open>add_team_member\<close>.
\<close>

datatype bulk_result = User_created string | Bulk_username_exists | Failed_to_create_user

definition bulk_upload_row ::
  "digest \<Rightarrow> string \<Rightarrow> string \<Rightarrow> string \<Rightarrow> string \<Rightarrow> string \<Rightarrow> db \<Rightarrow> bulk_result \<times> db" where
  "bulk_upload_row sha256 random_password uname fname mail dept d =
     (let (existing_user, d1) = execute_query SELECT (select_user_id uname) d
      in if truthy existing_user then (Bulk_username_exists, d1)
         else
           (let (initial_password, d2) = add_team_member sha256 random_password uname fname mail dept d1
            in (case initial_password of
                  Some p \<Rightarrow> if p \<noteq> [] then User_created p else Failed_to_create_user
                | None \<Rightarrow> Failed_to_create_user, d2)))"

text \<open>
  The form "Change Password" of \<^verbatim>\<open>user_profile_page\<close>, once submitted, for the user
  row read at the top of the page (\<open>uid\<close> is its id). The salt of the new hash is
  16 random letters and digits: the parameter \<open>salt\<close>.
  \<^verbatim>\<open>current_hash.split('$')[0]\<close> is the stored hash up to its first \<^verbatim>\<open>$\<close>
  (all of it when it has none).
\<close>

datatype change_result =
  Password_changed | Update_failed | Current_password_incorrect | Failed_to_verify
  | Too_short | Confirmation_mismatch | Fields_required

definition select_password_hash :: "nat \<Rightarrow> db \<Rightarrow> (string option list \<times> db) option" where
  "select_password_hash uid d =
     Some (map password_hash (filter (\<lambda>u. user_id u = uid) (users d)), d)"

text \<open>
  \<^verbatim>\<open>UPDATE users SET password_hash = %s WHERE id = %s\<close>: rejected when the value is
  longer than the 64 characters of the column \<^verbatim>\<open>password_hash VARCHAR(64)\<close> (strict mode,
  as for the \<^verbatim>\<open>INSERT\<close> above). In either mode no stored hash is longer than 64
  characters.
\<close>

definition update_password_hash :: "string \<Rightarrow> nat \<Rightarrow> db \<Rightarrow> (unit \<times> db) option" where
  "update_password_hash new_hash uid d =
     (if length new_hash > 64 then None
      else Some ((), d\<lparr>users :=
        map (\<lambda>u. if user_id u = uid then u\<lparr>password_hash := Some new_hash\<rparr> else u) (users d)\<rparr>))"

definition salted_hash :: "digest \<Rightarrow> string \<Rightarrow> string \<Rightarrow> string" where
  "salted_hash sha256 salt password = salt @ ''$'' @ hexdigest (sha256 (salt @ password))"

definition change_password ::
  "digest \<Rightarrow> string \<Rightarrow> nat \<Rightarrow> string \<Rightarrow> string \<Rightarrow> string \<Rightarrow> db \<Rightarrow> change_result \<times> db" where
  "change_password sha256 salt uid current_password new_password confirm_password d =
     (if current_password = [] \<or> new_password = [] \<or> confirm_password = [] then (Fields_required, d)
      else if new_password \<noteq> confirm_password then (Confirmation_mismatch, d)
      else if length new_password < 8 then (Too_short, d)
      else
        (let (result, d1) = execute_query SELECT (select_password_hash uid) d
         in case result of
              Some (Some current_hash # _) \<Rightarrow>
                if current_hash = [] then (Failed_to_verify, d1)
                else
                  (let old_salt = takeWhile (\<lambda>c. c \<noteq> CHR ''$'') current_hash;
                       input_hash = salted_hash sha256 old_salt current_password
                   in if input_hash \<noteq> current_hash then (Current_password_incorrect, d1)
                      else
                        (let new_hash = salted_hash sha256 salt new_password;
                             (success, d2) = execute_query UPDATE (update_password_hash new_hash uid) d1
                         in (if success \<noteq> None then Password_changed else Update_failed, d2)))
            | _ \<Rightarrow> (Failed_to_verify, d1)))"

section \<open>Task status transition\<close>

text \<open>
  The rows that the cursor returns are dictionaries from column names to values; for the
  task listing below the keys matter, so its rows are maps. \<^verbatim>\<open>task.get(key)\<close> is the
  application of the map.
\<close>

datatype val = Null | Num nat | Str string

type_synonym row = "string \<rightharpoonup> val"

text \<open>
  \<^verbatim>\<open>get_all_statuses_with_id()\<close>:
  \<^verbatim>\<open>SELECT id, name FROM statuses ORDER BY display_order\<close>, then \<^verbatim>\<open>or []\<close>.
\<close>

definition status_list_of :: "db \<Rightarrow> (nat \<times> string) list" where
  "status_list_of d = map (\<lambda>s. (status_id s, status_name s)) (sort_key display_order (statuses d))"

definition select_statuses :: "db \<Rightarrow> ((nat \<times> string) list \<times> db) option" where
  "select_statuses d = Some (status_list_of d, d)"

definition get_all_statuses_with_id :: "db \<Rightarrow> (nat \<times> string) list \<times> db" where
  "get_all_statuses_with_id d =
     (let (result, d1) = execute_query SELECT select_statuses d
      in (or_empty result, d1))"

text \<open>
  The query of \<^verbatim>\<open>show_department_tasks_by_status(department_id, status_id)\<close>:
  \<^verbatim>\<open>SELECT t.id, t.title, t.description, t.priority, t.deadline,
  u_assignee.full_name as assignee, u_reporter.full_name as reporter FROM tasks t
  LEFT JOIN users u_assignee ON t.assignee_id = u_assignee.id
  JOIN users u_reporter ON t.reporter_id = u_reporter.id
  WHERE t.department_id = %s AND t.status_id = %s ORDER BY t.deadline\<close>.
  The selected columns are these seven; \<^verbatim>\<open>NULL\<close> sorts first.
\<close>

definition listing_row :: "task_row \<Rightarrow> user_row option \<Rightarrow> user_row \<Rightarrow> row" where
  "listing_row t assignee reporter =
     [''id'' \<mapsto> Num (task_id t),
      ''title'' \<mapsto> Str (task_title t),
      ''description'' \<mapsto> Str (task_description t),
      ''priority'' \<mapsto> Str (task_priority t),
      ''deadline'' \<mapsto> (case task_deadline t of None \<Rightarrow> Null | Some day \<Rightarrow> Num day),
      ''assignee'' \<mapsto> (case assignee of None \<Rightarrow> Null | Some a \<Rightarrow> Str (full_name a)),
      ''reporter'' \<mapsto> Str (full_name reporter)]"

definition left_join_assignee :: "task_row \<Rightarrow> user_row list \<Rightarrow> user_row option list" where
  "left_join_assignee t us =
     (case filter (\<lambda>u. Some (user_id u) = task_assignee_id t) us of
        [] \<Rightarrow> [None]
      | matches \<Rightarrow> map Some matches)"

definition deadline_key :: "task_row \<Rightarrow> nat" where
  "deadline_key t = (case task_deadline t of None \<Rightarrow> 0 | Some day \<Rightarrow> Suc day)"

definition select_tasks_by_status :: "nat \<Rightarrow> nat \<Rightarrow> db \<Rightarrow> (row list \<times> db) option" where
  "select_tasks_by_status dep sid d =
     Some (concat (map (\<lambda>t.
             concat (map (\<lambda>assignee.
               map (\<lambda>reporter. listing_row t assignee reporter)
                 (filter (\<lambda>u. user_id u = task_reporter_id t) (users d)))
               (left_join_assignee t (users d))))
             (sort_key deadline_key
                (filter (\<lambda>t. task_department_id t = dep \<and> task_status_id t = sid) (tasks d)))), d)"

text \<open>\<^verbatim>\<open>UPDATE tasks SET status_id = %s WHERE id = %s\<close>; the column references statuses.\<close>

definition update_task_status :: "nat \<Rightarrow> nat \<Rightarrow> db \<Rightarrow> (unit \<times> db) option" where
  "update_task_status new_status tid d =
     (if tid \<in> task_id ` set (tasks d) \<and> new_status \<notin> status_id ` set (statuses d) then None
      else Some ((), d\<lparr>tasks :=
        map (\<lambda>t. if task_id t = tid then t\<lparr>task_status_id := new_status\<rparr> else t) (tasks d)\<rparr>))"

text \<open>
  \<^verbatim>\<open>next((i for i, s in enumerate(status_list) if s['id'] == status_id), None)\<close>.
\<close>

fun first_index :: "('a \<Rightarrow> bool) \<Rightarrow> 'a list \<Rightarrow> nat option" where
  "first_index P [] = None"
| "first_index P (x # xs) = (if P x then Some 0 else map_option Suc (first_index P xs))"

text \<open>
  The loop over the listed tasks, for a run of the page in which the button
  \<^verbatim>\<open>move_{task id}_{status_id}\<close> of the task \<open>pressed\<close> is the one pressed. For every
  task the statuses are read again; the button exists when the status of the tab has a
  successor. After a successful update the notification is sent when
  \<^verbatim>\<open>task.get('assignee_id')\<close> is true (an id column holds a number; 0 and a missing key
  are false), and the page is run again (\<^verbatim>\<open>st.experimental_rerun()\<close>), which ends the
  loop. After a failed update the loop goes on.
\<close>

datatype move_result = Moved string | Nothing_moved

definition moved_content :: "val option \<Rightarrow> string \<Rightarrow> string" where
  "moved_content title status =
     ''Task '' @ [CHR 0x27] @ (case title of Some (Str s) \<Rightarrow> s | _ \<Rightarrow> []) @ [CHR 0x27]
       @ '' has been moved to '' @ status"

fun move_buttons :: "nat \<Rightarrow> nat \<Rightarrow> row list \<Rightarrow> db \<Rightarrow> move_result \<times> db" where
  "move_buttons pressed sid [] d = (Nothing_moved, d)"
| "move_buttons pressed sid (task # rest) d =
     (let (status_list, d1) = get_all_statuses_with_id d
      in case first_index (\<lambda>s. fst s = sid) status_list of
           None \<Rightarrow> move_buttons pressed sid rest d1
         | Some i \<Rightarrow>
             if Suc i < length status_list \<and> task ''id'' = Some (Num pressed) then
               (let next_status = status_list ! Suc i;
                    (success, d2) = execute_query UPDATE (update_task_status (fst next_status) pressed) d1
                in if success \<noteq> None then
                     (case task ''assignee_id'' of
                        Some (Num assignee) \<Rightarrow>
                          if assignee \<noteq> 0 then
                            (Moved (snd next_status),
                             snd (add_notification assignee
                                    (moved_content (task ''title'') (snd next_status))
                                    (Some (task_link pressed)) d2))
                          else (Moved (snd next_status), d2)
                      | _ \<Rightarrow> (Moved (snd next_status), d2))
                   else move_buttons pressed sid rest d2)
             else move_buttons pressed sid rest d1)"

definition show_department_tasks_by_status :: "nat \<Rightarrow> nat \<Rightarrow> nat \<Rightarrow> db \<Rightarrow> move_result \<times> db" where
  "show_department_tasks_by_status dep sid pressed d =
     (let (listed, d1) = execute_query SELECT (select_tasks_by_status dep sid) d
      in if truthy listed then move_buttons pressed sid (or_empty listed) d1
         else (Nothing_moved, d1))"

section \<open>Batch permission update\<close>

text \<open>
  The form "Update Permissions" of \<^verbatim>\<open>admin_panel_page\<close>, once submitted:
  \<^verbatim>\<open>permissions_data\<close> holds one entry per department.
\<close>

record permission_entry =
  entry_department_id :: nat
  entry_department_name :: string
  entry_can_view :: bool
  entry_can_edit :: bool

text \<open>
  The grant rows of a pair, \<^verbatim>\<open>WHERE user_id = %s AND department_id = %s\<close>, and the check
  \<^verbatim>\<open>SELECT id FROM user_department_permissions\<close> on them. The table is not created by
  \<^verbatim>\<open>initialize_database\<close>; no constraint of it is known and none is modelled.
\<close>

definition grants_of :: "nat \<Rightarrow> nat \<Rightarrow> db \<Rightarrow> grant_row list" where
  "grants_of uid dep d =
     filter (\<lambda>g. grant_user_id g = uid \<and> grant_department_id g = dep)
       (user_department_permissions d)"

definition select_permission_id :: "nat \<Rightarrow> nat \<Rightarrow> db \<Rightarrow> (nat list \<times> db) option" where
  "select_permission_id uid dep d = Some (map grant_id (grants_of uid dep d), d)"

definition update_permission :: "bool \<Rightarrow> bool \<Rightarrow> nat \<Rightarrow> nat \<Rightarrow> db \<Rightarrow> (unit \<times> db) option" where
  "update_permission view edit uid dep d =
     Some ((), d\<lparr>user_department_permissions :=
       map (\<lambda>g. if grant_user_id g = uid \<and> grant_department_id g = dep
                 then g\<lparr>can_view := view, can_edit := edit\<rparr> else g)
         (user_department_permissions d)\<rparr>)"

definition insert_permission :: "nat \<Rightarrow> nat \<Rightarrow> bool \<Rightarrow> bool \<Rightarrow> db \<Rightarrow> (unit \<times> db) option" where
  "insert_permission uid dep view edit d =
     Some ((), d\<lparr>user_department_permissions := user_department_permissions d @
       [\<lparr>grant_id = next_id (map grant_id (user_department_permissions d)),
         grant_user_id = uid, grant_department_id = dep, can_view = view, can_edit = edit\<rparr>]\<rparr>)"

text \<open>The body of the loop: the check, then the update or the insert; \<^verbatim>\<open>if result\<close>.\<close>

definition upsert_permission :: "nat \<Rightarrow> permission_entry \<Rightarrow> db \<Rightarrow> bool \<times> db" where
  "upsert_permission uid perm d =
     (let (existing_perm, d1) =
            execute_query SELECT (select_permission_id uid (entry_department_id perm)) d;
          (result, d2) =
            (if truthy existing_perm
             then execute_query UPDATE
                    (update_permission (entry_can_view perm) (entry_can_edit perm) uid
                       (entry_department_id perm)) d1
             else execute_query INSERT
                    (insert_permission uid (entry_department_id perm) (entry_can_view perm)
                       (entry_can_edit perm)) d1)
      in (result \<noteq> None, d2))"

fun upsert_all :: "nat \<Rightarrow> permission_entry list \<Rightarrow> nat \<Rightarrow> db \<Rightarrow> nat \<times> db" where
  "upsert_all uid [] success_count d = (success_count, d)"
| "upsert_all uid (perm # rest) success_count d =
     (let (ok, d1) = upsert_permission uid perm d
      in upsert_all uid rest (if ok then success_count + 1 else success_count) d1)"

datatype update_message = Permissions_updated | Some_not_updated nat nat

definition update_permissions :: "nat \<Rightarrow> permission_entry list \<Rightarrow> db \<Rightarrow> update_message \<times> db" where
  "update_permissions uid permissions_data d =
     (let (success_count, d1) = upsert_all uid permissions_data 0 d
      in (if success_count = length permissions_data then Permissions_updated
          else Some_not_updated success_count (length permissions_data), d1))"

section \<open>An example store\<close>

text \<open>A stand-in for the digest in the examples: the length of the string.\<close>

definition toy_digest :: digest where
  "toy_digest s = length s"

text \<open>
  Two users, two departments, the four statuses of \<^verbatim>\<open>initialize_database\<close>, two
  tasks, one grant (alice on Marketing, none on Engineering, the department her profile
  names) and a few notifications.
\<close>

definition demo_db :: db where
  "demo_db =
     \<lparr>users =
        [\<lparr>user_id = 1, username = ''alice'', full_name = ''Alice Rao'',
          email = ''alice@edubull.com'', department = ''Engineering'', password_hash = None,
          role = ''user'', user_created_at = 1\<rparr>,
         \<lparr>user_id = 2, username = ''carol'', full_name = ''Carol Iyer'',
          email = ''carol@edubull.com'', department = ''Marketing'', password_hash = None,
          role = ''admin'', user_created_at = 2\<rparr>],
      departments =
        [\<lparr>department_id = 1, department_name = ''Engineering'', department_description = []\<rparr>,
         \<lparr>department_id = 2, department_name = ''Marketing'', department_description = []\<rparr>],
      statuses =
        [\<lparr>status_id = 1, status_name = ''To Do'', display_order = 1\<rparr>,
         \<lparr>status_id = 2, status_name = ''In Progress'', display_order = 2\<rparr>,
         \<lparr>status_id = 3, status_name = ''Review'', display_order = 3\<rparr>,
         \<lparr>status_id = 4, status_name = ''Done'', display_order = 4\<rparr>],
      tasks =
        [\<lparr>task_id = 1, task_title = ''Quarterly report'', task_description = [],
          task_assignee_id = Some 2, task_reporter_id = 1, task_status_id = 1,
          task_priority = ''High'', task_deadline = None, task_department_id = 1\<rparr>,
         \<lparr>task_id = 2, task_title = ''Archive'', task_description = [],
          task_assignee_id = None, task_reporter_id = 2, task_status_id = 4,
          task_priority = ''Low'', task_deadline = Some 30, task_department_id = 1\<rparr>],
      comments = [],
      user_department_permissions =
        [\<lparr>grant_id = 1, grant_user_id = 1, grant_department_id = 2, can_view = True,
          can_edit = True\<rparr>],
      notifications =
        [\<lparr>notification_id = 1, notification_user_id = 1, notification_content = ''first'',
          notification_link = None, is_read = False, notification_created_at = 5\<rparr>,
         \<lparr>notification_id = 2, notification_user_id = 1, notification_content = ''second'',
          notification_link = None, is_read = True, notification_created_at = 9\<rparr>,
         \<lparr>notification_id = 3, notification_user_id = 2, notification_content = ''third'',
          notification_link = None, is_read = False, notification_created_at = 8\<rparr>,
         \<lparr>notification_id = 4, notification_user_id = 1, notification_content = ''fourth'',
          notification_link = None, is_read = False, notification_created_at = 7\<rparr>],
      user_mentions = [],
      now = 10,
      faults = [],
      issued = []\<rparr>"


text \<open>The example store when the fourth statement to come fails.\<close>

definition faulty_db :: db where
  "faulty_db = demo_db\<lparr>faults := [False, False, False, True]\<rparr>"

section \<open>Results\<close>

subsection \<open>Permission engine\<close>

lemma no_grant_no_view:
  assumes "\<forall>g \<in> set (user_department_permissions d).
             \<not> (grant_user_id g = uid \<and> grant_department_id g = dep)"
  shows "\<not> fst (check_department_access uid dep d)"
  using assms
  by (auto simp: check_department_access_def execute_query_def select_can_view_def truthy_def
        Let_def filter_empty_conv)

lemma no_grant_no_edit:
  assumes "\<forall>g \<in> set (user_department_permissions d).
             \<not> (grant_user_id g = uid \<and> grant_department_id g = dep)"
  shows "\<not> fst (check_department_edit uid dep d)"
  using assms
  by (auto simp: check_department_edit_def execute_query_def select_can_edit_def truthy_def
        Let_def filter_empty_conv)

lemma no_grant_not_accessible:
  assumes "\<forall>g \<in> set (user_department_permissions d).
             \<not> (grant_user_id g = uid \<and> grant_department_id g = dep)"
  shows "dep \<notin> acc_id ` set (fst (get_user_accessible_departments uid d))"
  using assms
  by (auto simp: get_user_accessible_departments_def execute_query_def select_accessible_def
        or_empty_def Let_def)

text \<open>
  C1. A user without a grant row for a department can neither view nor edit it, and the
  department is not among the user's accessible departments, whatever the other tables
  hold (so also when the user's free-text department field names that department) and
  whether or not the store answers.
\<close>

theorem no_grant_no_access:
  assumes "\<forall>g \<in> set (user_department_permissions d).
             \<not> (grant_user_id g = uid \<and> grant_department_id g = dep)"
  shows "\<not> fst (check_department_access uid dep d) \<and>
         \<not> fst (check_department_edit uid dep d) \<and>
         dep \<notin> acc_id ` set (fst (get_user_accessible_departments uid d))"
  using assms no_grant_no_view no_grant_no_edit no_grant_not_accessible by blast

text \<open>
  In the example store alice has no grant on Engineering (department 1), the department
  her profile field names: she gets no access to it. Her grant on Marketing is listed.
\<close>

theorem no_grant_no_access_witness:
  "department (hd (users demo_db)) = department_name (hd (departments demo_db)) \<and>
   \<not> fst (check_department_access 1 1 demo_db) \<and>
   \<not> fst (check_department_edit 1 1 demo_db) \<and>
   map acc_id (fst (get_user_accessible_departments 1 demo_db)) = [2]"
  using no_grant_no_access [of demo_db 1 1]
  by (simp add: demo_db_def get_user_accessible_departments_def execute_query_def
        next_fails_def select_accessible_def or_empty_def)

subsection \<open>Notification inbox\<close>

lemma order_by_desc_sorted:
  "sorted_wrt (\<lambda>a b. key b \<le> key a) (order_by_desc key rows)"
proof -
  have "sorted (map key (sort_key key rows))" by (rule sorted_sort_key)
  then have "sorted_wrt (\<lambda>a b. key a \<le> key b) (sort_key key rows)"
    by (simp add: sorted_map)
  then show ?thesis
    by (simp add: order_by_desc_def sorted_wrt_rev)
qed

lemma set_order_by_desc [simp]: "set (order_by_desc key rows) = set rows"
  by (simp add: order_by_desc_def)

lemma length_order_by_desc [simp]: "length (order_by_desc key rows) = length rows"
  by (simp add: order_by_desc_def)

lemma inbox_rows_sorted:
  "sorted_wrt (\<lambda>a b. inbox_created_at b \<le> inbox_created_at a)
     (map inbox_of (take 50 (order_by_desc notification_created_at rows)))"
proof -
  have "sorted_wrt (\<lambda>a b. notification_created_at b \<le> notification_created_at a)
          (take 50 (order_by_desc notification_created_at rows))"
    using order_by_desc_sorted sorted_wrt_take by blast
  then show ?thesis
    by (simp add: sorted_wrt_map inbox_of_def)
qed

lemma sorted_desc_take_bound:
  assumes "sorted_wrt (\<lambda>a b. key b \<le> key a) rows" and "n \<in> set rows"
    and "n \<notin> set (take k rows)" and "m \<in> set (take k rows)"
  shows "key n \<le> key m"
proof -
  have "sorted_wrt (\<lambda>a b. key b \<le> key a) (take k rows @ drop k rows)"
    using assms(1) by simp
  then have later: "\<forall>x \<in> set (take k rows). \<forall>y \<in> set (drop k rows). key y \<le> key x"
    unfolding sorted_wrt_append by blast
  have "set rows = set (take k rows) \<union> set (drop k rows)"
    by (metis append_take_drop_id set_append)
  with assms(2,3) have "n \<in> set (drop k rows)" by blast
  with later assms(4) show ?thesis by blast
qed

text \<open>
  C8. The inbox of a user holds rows of that user's notifications only, newest first
  by creation timestamp, and at most 50 of them; when the store answers, it holds
  50 of them or all of them, and no notification left out is newer than one listed.
\<close>

theorem inbox_newest_first_capped:
  "(\<forall>r \<in> set (fst (get_user_notifications uid d)).
      \<exists>n \<in> set (notifications d). notification_user_id n = uid \<and> r = inbox_of n) \<and>
   sorted_wrt (\<lambda>a b. inbox_created_at b \<le> inbox_created_at a) (fst (get_user_notifications uid d)) \<and>
   length (fst (get_user_notifications uid d)) \<le> 50 \<and>
   (\<not> next_fails d \<longrightarrow>
      length (fst (get_user_notifications uid d)) =
        min 50 (length (filter (\<lambda>n. notification_user_id n = uid) (notifications d))) \<and>
      (\<forall>n \<in> set (notifications d). \<forall>r \<in> set (fst (get_user_notifications uid d)).
         notification_user_id n = uid \<and> inbox_of n \<notin> set (fst (get_user_notifications uid d))
         \<longrightarrow> notification_created_at n \<le> inbox_created_at r))"
proof -
  let ?own = "filter (\<lambda>n. notification_user_id n = uid) (notifications d)"
  let ?full = "map inbox_of (take 50 (order_by_desc notification_created_at ?own))"
  have own: "\<forall>r \<in> set ?full. \<exists>n \<in> set (notifications d). notification_user_id n = uid \<and> r = inbox_of n"
  proof
    fix r assume "r \<in> set ?full"
    then obtain n where n: "n \<in> set (take 50 (order_by_desc notification_created_at ?own))"
      and r: "r = inbox_of n" by auto
    from n have "n \<in> set (order_by_desc notification_created_at ?own)"
      by (rule in_set_takeD)
    then have "n \<in> set (notifications d) \<and> notification_user_id n = uid" by simp
    with r show "\<exists>n \<in> set (notifications d). notification_user_id n = uid \<and> r = inbox_of n"
      by blast
  qed
  have sorted: "sorted_wrt (\<lambda>a b. inbox_created_at b \<le> inbox_created_at a) ?full"
    by (rule inbox_rows_sorted)
  have len: "length ?full = min 50 (length ?own)" by simp
  have newest: "\<forall>n \<in> set (notifications d). \<forall>r \<in> set ?full.
      notification_user_id n = uid \<and> inbox_of n \<notin> set ?full
      \<longrightarrow> notification_created_at n \<le> inbox_created_at r"
  proof (intro ballI impI)
    fix n r
    let ?sorted = "order_by_desc notification_created_at ?own"
    assume n: "n \<in> set (notifications d)" and r: "r \<in> set ?full"
      and h: "notification_user_id n = uid \<and> inbox_of n \<notin> set ?full"
    from r obtain m where m: "m \<in> set (take 50 ?sorted)" and rm: "r = inbox_of m" by auto
    from n h have inside: "n \<in> set ?sorted" by simp
    from h have outside: "n \<notin> set (take 50 ?sorted)" by auto
    have "notification_created_at n \<le> notification_created_at m"
      by (rule sorted_desc_take_bound [OF order_by_desc_sorted inside outside m])
    with rm show "notification_created_at n \<le> inbox_created_at r"
      by (simp add: inbox_of_def)
  qed
  have answered: "\<not> next_fails d \<Longrightarrow> fst (get_user_notifications uid d) = ?full"
    by (simp add: get_user_notifications_def execute_query_def select_notifications_def
          or_empty_def Let_def)
  show ?thesis
  proof (cases "next_fails d")
    case True
    then have "fst (get_user_notifications uid d) = []"
      by (simp add: get_user_notifications_def execute_query_def or_empty_def Let_def)
    with True show ?thesis by simp
  next
    case False
    with answered have "fst (get_user_notifications uid d) = ?full" by simp
    with own sorted len newest show ?thesis by simp
  qed
qed

text \<open>
  In the example store alice has three notifications; they come newest first.
\<close>

theorem inbox_newest_first_capped_witness:
  "\<not> next_fails demo_db \<and>
   map inbox_id (fst (get_user_notifications 1 demo_db)) = [2, 4, 1] \<and>
   map inbox_created_at (fst (get_user_notifications 1 demo_db)) = [9, 7, 5]"
  using inbox_newest_first_capped [of 1 demo_db]
  by (simp add: demo_db_def get_user_notifications_def execute_query_def next_fails_def
        select_notifications_def or_empty_def order_by_desc_def inbox_of_def)

lemma unread_count_eq:
  "fst (get_unread_notification_count uid d) =
     (if next_fails d then 0
      else length (filter (\<lambda>n. notification_user_id n = uid \<and> \<not> is_read n) (notifications d)))"
  by (simp add: get_unread_notification_count_def execute_query_def select_unread_count_def Let_def)

lemma mark_all_notifications:
  "notifications (snd (mark_all_notifications_read uid d)) =
     (if fst (mark_all_notifications_read uid d) = None then notifications d
      else map (\<lambda>n. if notification_user_id n = uid then n\<lparr>is_read := True\<rparr> else n)
             (notifications d))"
  by (simp add: mark_all_notifications_read_def execute_query_def update_all_read_def Let_def)

lemma none_unread_after_marking:
  "filter (\<lambda>n. notification_user_id n = uid \<and> \<not> is_read n)
     (map (\<lambda>n. if notification_user_id n = uid then n\<lparr>is_read := True\<rparr> else n) rows) = []"
  by (induction rows) auto

lemma unread_count_after_mark_all:
  assumes "fst (mark_all_notifications_read uid d) \<noteq> None"
  shows "fst (get_unread_notification_count uid (snd (mark_all_notifications_read uid d))) = 0"
  using assms
  by (simp add: unread_count_eq mark_all_notifications none_unread_after_marking)

lemma mark_read_keeps_read_rows:
  "length (notifications (snd (mark_notification_read nid d))) = length (notifications d) \<and>
   (\<forall>i < length (notifications d). is_read (notifications d ! i) \<longrightarrow>
      notifications (snd (mark_notification_read nid d)) ! i = notifications d ! i)"
  by (simp add: mark_notification_read_def execute_query_def update_read_def Let_def)

lemma mark_read_twice:
  assumes "fst (mark_notification_read nid d) \<noteq> None"
  shows "notifications (snd (mark_notification_read nid (snd (mark_notification_read nid d))))
           = notifications (snd (mark_notification_read nid d))"
  using assms
  by (auto simp: mark_notification_read_def execute_query_def update_read_def Let_def
        split: if_splits)

text \<open>
  C7. When \<^verbatim>\<open>mark_all_notifications_read\<close> has succeeded for a user, the unread
  count of that user read next is 0. \<^verbatim>\<open>mark_notification_read\<close> leaves every row that
  is already read exactly as it is, whichever id it is given and whether or not it
  succeeds, and marking a second time after a successful first changes nothing.
\<close>

theorem mark_all_read_then_count_zero:
  "(fst (mark_all_notifications_read uid d) \<noteq> None \<longrightarrow>
      fst (get_unread_notification_count uid (snd (mark_all_notifications_read uid d))) = 0) \<and>
   length (notifications (snd (mark_notification_read nid d))) = length (notifications d) \<and>
   (\<forall>i < length (notifications d). is_read (notifications d ! i) \<longrightarrow>
      notifications (snd (mark_notification_read nid d)) ! i = notifications d ! i) \<and>
   (fst (mark_notification_read nid d) \<noteq> None \<longrightarrow>
      notifications (snd (mark_notification_read nid (snd (mark_notification_read nid d))))
        = notifications (snd (mark_notification_read nid d)))"
  using unread_count_after_mark_all [of uid d] mark_read_keeps_read_rows [of nid d]
    mark_read_twice [of nid d]
  by blast

text \<open>
  In the example store alice has two unread notifications; after marking all read she has
  none. Notification 2 is already read: marking it read leaves the table as it was.
\<close>

theorem mark_all_read_then_count_zero_witness:
  "fst (get_unread_notification_count 1 demo_db) = 2 \<and>
   fst (mark_all_notifications_read 1 demo_db) \<noteq> None \<and>
   fst (get_unread_notification_count 1 (snd (mark_all_notifications_read 1 demo_db))) = 0 \<and>
   is_read (notifications demo_db ! 1) \<and> notification_id (notifications demo_db ! 1) = 2 \<and>
   fst (mark_notification_read 2 demo_db) \<noteq> None \<and>
   notifications (snd (mark_notification_read 2 demo_db)) = notifications demo_db"
  using mark_all_read_then_count_zero [of 1 demo_db 2]
  by (simp add: demo_db_def get_unread_notification_count_def mark_all_notifications_read_def
        mark_notification_read_def execute_query_def next_fails_def select_unread_count_def
        update_all_read_def update_read_def)

subsection \<open>Credential store\<close>

lemma length_hex_digits [simp]: "length (hex_digits k n) = k"
  by (induction k arbitrary: n) simp_all

lemma length_hash_password [simp]: "length (hash_password sha256 password) = 64"
  by (simp add: hash_password_def hexdigest_def)

lemma hex_char_not_dollar: "hex_char n \<noteq> CHR ''$''"
proof -
  have "n mod 16 < length ''0123456789abcdef''" by simp
  then have "hex_char n \<in> set ''0123456789abcdef''"
    unfolding hex_char_def by (rule nth_mem)
  then show ?thesis by auto
qed

lemma hex_digits_no_dollar: "CHR ''$'' \<notin> set (hex_digits k n)"
proof (induction k arbitrary: n)
  case 0
  show ?case by simp
next
  case (Suc k)
  have "CHR ''$'' \<noteq> hex_char n" using hex_char_not_dollar [of n] by (rule not_sym)
  with Suc show ?case by simp
qed

lemma salted_is_no_plain_digest: "salted_hash sha256 salt p \<noteq> hash_password sha256 q"
proof
  assume eq: "salted_hash sha256 salt p = hash_password sha256 q"
  have "CHR ''$'' \<in> set (salted_hash sha256 salt p)" by (simp add: salted_hash_def)
  with eq have "CHR ''$'' \<in> set (hex_digits 64 (sha256 q))"
    by (simp add: hash_password_def hexdigest_def)
  with hex_digits_no_dollar show False by blast
qed

lemma verify_user_eq:
  "fst (verify_user sha256 uname pw d) =
     (if next_fails d then None
      else case filter (\<lambda>u. username u = uname \<and> password_hash u = Some (hash_password sha256 pw))
                  (users d) of
             [] \<Rightarrow> None | u # _ \<Rightarrow> Some (login_of u))"
  by (simp add: verify_user_def execute_query_def select_login_def Let_def split: list.splits)

lemma register_created:
  assumes "register_user sha256 un fn em dp pw cp d = (Account_created, d2)"
  shows "cp = pw \<and> un \<notin> username ` set (users d) \<and>
         users d2 = users d @
           [\<lparr>user_id = next_id (map user_id (users d)), username = un, full_name = fn,
             email = em, department = dp, password_hash = Some (hash_password sha256 pw),
             role = ''user'', user_created_at = now d\<rparr>]"
  using assms
  by (auto simp: register_user_def execute_query_def select_user_id_def insert_user_def Let_def
        split: if_splits prod.splits option.splits)




text \<open>
  C5. After a registration that reported success, \<^verbatim>\<open>verify_user\<close> with the registered
  username and password returns the row of the new user (its id, username, full name and
  the role \<^verbatim>\<open>user\<close>) whenever the store answers the query, and with any password whose
  digest differs from the registered one's it returns \<^verbatim>\<open>None\<close>.
\<close>

theorem register_then_verify:
  assumes "register_user sha256 un fn em dp pw cp d = (Account_created, d2)"
  shows "(\<not> next_fails d2 \<longrightarrow>
           fst (verify_user sha256 un pw d2) =
             Some \<lparr>login_id = next_id (map user_id (users d)), login_username = un,
                   login_full_name = fn, login_role = ''user''\<rparr>) \<and>
         (\<forall>p. hash_password sha256 p \<noteq> hash_password sha256 pw \<longrightarrow>
            fst (verify_user sha256 un p d2) = None)"
proof -
  let ?new = "\<lparr>user_id = next_id (map user_id (users d)), username = un, full_name = fn,
             email = em, department = dp, password_hash = Some (hash_password sha256 pw),
             role = ''user'', user_created_at = now d\<rparr>"
  from register_created [OF assms]
  have fresh: "un \<notin> username ` set (users d)" and after: "users d2 = users d @ [?new]"
    by simp_all
  from fresh have old: "\<And>h. filter (\<lambda>u. username u = un \<and> password_hash u = Some h) (users d) = []"
    by (auto simp: filter_empty_conv)
  show ?thesis
    by (simp add: verify_user_eq after old login_of_def)
qed



lemma hexdigest_last: "hexdigest n = hexdigest m \<Longrightarrow> hex_char n = hex_char m"
proof -
  assume eq: "hexdigest n = hexdigest m"
  have "(64::nat) = Suc 63" by simp
  with eq have "hex_digits (Suc 63) n = hex_digits (Suc 63) m"
    by (simp only: hexdigest_def)
  then show ?thesis
    by (simp only: hex_digits.simps append1_eq_conv)
qed

lemma toy_digests_differ: "hash_password toy_digest ''wrong'' \<noteq> hash_password toy_digest ''secret123''"
proof
  assume "hash_password toy_digest ''wrong'' = hash_password toy_digest ''secret123''"
  then have "hex_char (length ''wrong'') = hex_char (length ''secret123'')"
    unfolding hash_password_def toy_digest_def by (rule hexdigest_last)
  then show False by (simp add: hex_char_def)
qed

text \<open>
  bob registers with \<^verbatim>\<open>secret123\<close> in the example store and becomes user 3; he logs
  in with \<^verbatim>\<open>secret123\<close> and not with \<^verbatim>\<open>wrong\<close>.
\<close>

theorem register_then_verify_witness:
  "fst (register_user toy_digest ''bob'' ''Bob Nair'' ''bob@edubull.com'' ''Sales'' ''secret123''
          ''secret123'' demo_db) = Account_created \<and>
   fst (verify_user toy_digest ''bob'' ''secret123''
          (snd (register_user toy_digest ''bob'' ''Bob Nair'' ''bob@edubull.com'' ''Sales''
                  ''secret123'' ''secret123'' demo_db))) =
     Some \<lparr>login_id = 3, login_username = ''bob'', login_full_name = ''Bob Nair'',
           login_role = ''user''\<rparr> \<and>
   fst (verify_user toy_digest ''bob'' ''wrong''
          (snd (register_user toy_digest ''bob'' ''Bob Nair'' ''bob@edubull.com'' ''Sales''
                  ''secret123'' ''secret123'' demo_db))) = None"
proof -
  let ?r = "register_user toy_digest ''bob'' ''Bob Nair'' ''bob@edubull.com'' ''Sales''
              ''secret123'' ''secret123'' demo_db"
  have created: "fst ?r = Account_created"
    by (simp add: register_user_def execute_query_def next_fails_def select_user_id_def
          insert_user_def fits_users_columns_def truthy_def demo_db_def)
  then have reg: "?r = (Account_created, snd ?r)"
    by (metis prod.collapse)
  have answered: "\<not> next_fails (snd ?r)"
    by (simp add: register_user_def execute_query_def next_fails_def select_user_id_def
          insert_user_def fits_users_columns_def truthy_def demo_db_def)
  have ident: "next_id (map user_id (users demo_db)) = 3"
    by (simp add: next_id_def demo_db_def)
  from register_then_verify [OF reg] answered toy_digests_differ created ident
  show ?thesis by simp
qed

subsection \<open>Changing the password\<close>

lemma length_salted_hash: "length (salted_hash sha256 salt password) = length salt + 65"
  by (simp add: salted_hash_def hexdigest_def)

lemma salted_hash_too_wide:
  "update_password_hash (salted_hash sha256 salt password) uid d = None"
  by (simp add: update_password_hash_def length_salted_hash)

lemma stored_hash_is_not_salted:
  assumes "length h \<le> 64"
  shows "salted_hash sha256 (takeWhile (\<lambda>c. c \<noteq> CHR ''$'') h) password \<noteq> h"
proof
  assume "salted_hash sha256 (takeWhile (\<lambda>c. c \<noteq> CHR ''$'') h) password = h"
  then have "length (salted_hash sha256 (takeWhile (\<lambda>c. c \<noteq> CHR ''$'') h) password) = length h"
    by simp
  with assms show False by (simp add: length_salted_hash)
qed

text \<open>
  The salted value does not fit the column, so the form never reports a changed password
  and never changes the users table, whatever the store holds.
\<close>

lemma change_password_never_succeeds:
  "fst (change_password sha256 salt uid cur new conf d) \<noteq> Password_changed \<and>
   users (snd (change_password sha256 salt uid cur new conf d)) = users d"
  by (simp add: change_password_def execute_query_def select_password_hash_def
        salted_hash_too_wide Let_def split: option.splits list.splits)

text \<open>
  Every statement that writes a password hash keeps the stored hashes within the 64
  characters of the column: the two writers are the \<^verbatim>\<open>INSERT INTO users\<close> and the
  \<^verbatim>\<open>UPDATE\<close> of the change-password form.
\<close>

lemma insert_user_keeps_width:
  assumes "\<forall>u \<in> set (users d). \<forall>h. password_hash u = Some h \<longrightarrow> length h \<le> 64"
    and "insert_user uname fname mail dept hashed_pwd rl d = Some (r, d2)"
  shows "\<forall>u \<in> set (users d2). \<forall>h. password_hash u = Some h \<longrightarrow> length h \<le> 64"
  using assms
  by (auto simp: insert_user_def fits_users_columns_def split: if_splits)

lemma update_password_hash_keeps_width:
  assumes "\<forall>u \<in> set (users d). \<forall>h. password_hash u = Some h \<longrightarrow> length h \<le> 64"
    and "update_password_hash new_hash uid d = Some (r, d2)"
  shows "\<forall>u \<in> set (users d2). \<forall>h. password_hash u = Some h \<longrightarrow> length h \<le> 64"
  using assms
  by (auto simp: update_password_hash_def split: if_splits)

text \<open>
  When the stored hashes fit their column the form does not get past the check of the
  current password: the stored hash up to its first \<^verbatim>\<open>$\<close> is taken for the salt, and the
  salted value that is compared with the stored hash is longer than the column. No
  \<^verbatim>\<open>UPDATE\<close> is sent.
\<close>

lemma change_password_stops_at_check:
  assumes "\<forall>u \<in> set (users d). \<forall>h. password_hash u = Some h \<longrightarrow> length h \<le> 64"
  shows "fst (change_password sha256 salt uid cur new conf d)
           \<in> {Fields_required, Confirmation_mismatch, Too_short, Failed_to_verify,
               Current_password_incorrect} \<and>
         UPDATE \<notin> set (issued (snd (change_password sha256 salt uid cur new conf d)))
           - set (issued d)"
proof -
  let ?rows = "filter (\<lambda>u. user_id u = uid) (users d)"
  have first: "salted_hash sha256 (takeWhile (\<lambda>c. c \<noteq> CHR ''$'') h) cur \<noteq> h"
    if "map password_hash ?rows = Some h # rest" for h rest
  proof -
    from that have "Some h \<in> set (map password_hash ?rows)" by simp
    then obtain u where "u \<in> set (users d)" and "password_hash u = Some h" by auto
    with assms have "length h \<le> 64" by blast
    then show ?thesis by (rule stored_hash_is_not_salted)
  qed
  show ?thesis
  proof (cases "map password_hash ?rows")
    case Nil
    then show ?thesis
      by (simp add: change_password_def execute_query_def select_password_hash_def Let_def)
  next
    case (Cons stored rest)
    show ?thesis
    proof (cases stored)
      case None
      with Cons show ?thesis
        by (simp add: change_password_def execute_query_def select_password_hash_def Let_def)
    next
      case (Some h)
      with Cons first [of h rest] show ?thesis
        by (simp add: change_password_def execute_query_def select_password_hash_def Let_def)
    qed
  qed
qed

text \<open>
  Were a salted value stored for every row of a username, \<^verbatim>\<open>verify_user\<close> would accept
  no password for it: a plain digest holds no \<^verbatim>\<open>$\<close>.
\<close>

lemma salted_hash_never_logs_in:
  assumes "\<forall>u \<in> set (users d). username u = un \<longrightarrow>
             (\<exists>salt p. password_hash u = Some (salted_hash sha256 salt p))"
  shows "fst (verify_user sha256 un password d) = None"
proof -
  have "filter (\<lambda>u. username u = un \<and> password_hash u = Some (hash_password sha256 password))
          (users d) = []"
    unfolding filter_empty_conv
  proof (intro ballI notI)
    fix u assume u: "u \<in> set (users d)"
      and both: "username u = un \<and> password_hash u = Some (hash_password sha256 password)"
    with assms obtain salt p where "password_hash u = Some (salted_hash sha256 salt p)" by blast
    with both have "salted_hash sha256 salt p = hash_password sha256 password" by simp
    with salted_is_no_plain_digest show False by blast
  qed
  then show ?thesis by (simp add: verify_user_eq)
qed


subsection \<open>Duplicate usernames\<close>

lemma insert_user_duplicate [simp]:
  "un \<in> username ` set (users d) \<Longrightarrow>
   insert_user un fn em dp h rl (d\<lparr>faults := fs, issued := ss\<rparr>) = None"
  by (simp add: insert_user_def)

lemma duplicate_never_stored:
  assumes "un \<in> username ` set (users d)"
  shows "users (snd (register_user sha256 un fn em dp pw cp d)) = users d"
    and "users (snd (bulk_upload_row sha256 rp un fn em dp d)) = users d"
    and "users (snd (add_member_form sha256 rp un fn em dp d)) = users d"
  using assms
  by (simp_all add: register_user_def bulk_upload_row_def add_member_form_def add_team_member_def
        execute_query_def select_user_id_def Let_def split: option.splits)

lemma register_duplicate_prechecked:
  assumes "un \<in> username ` set (users d)" and "\<not> next_fails d"
    and "un \<noteq> []" and "fn \<noteq> []" and "em \<noteq> []" and "pw \<noteq> []"
  shows "register_user sha256 un fn em dp pw pw d =
           (Username_already_exists, d\<lparr>faults := tl (faults d), issued := issued d @ [SELECT]\<rparr>)"
  using assms
  by (auto simp: register_user_def execute_query_def select_user_id_def truthy_def Let_def
        filter_empty_conv)

lemma bulk_duplicate_prechecked:
  assumes "un \<in> username ` set (users d)" and "\<not> next_fails d"
  shows "bulk_upload_row sha256 rp un fn em dp d =
           (Bulk_username_exists, d\<lparr>faults := tl (faults d), issued := issued d @ [SELECT]\<rparr>)"
  using assms
  by (auto simp: bulk_upload_row_def execute_query_def select_user_id_def truthy_def Let_def
        filter_empty_conv)

lemma add_team_member_duplicate:
  assumes "un \<in> username ` set (users d)"
  shows "add_team_member sha256 rp un fn em dp d =
           (None, d\<lparr>faults := tl (faults d), issued := issued d @ [INSERT]\<rparr>)"
  using assms
  by (simp add: add_team_member_def execute_query_def insert_user_def Let_def)

lemma add_member_form_duplicate:
  assumes "un \<in> username ` set (users d)" and "un \<noteq> []" and "fn \<noteq> []" and "em \<noteq> []"
  shows "add_member_form sha256 rp un fn em dp d =
           (Member_not_added, d\<lparr>faults := tl (faults d), issued := issued d @ [INSERT]\<rparr>)"
  using assms
  by (simp add: add_member_form_def add_team_member_duplicate)

text \<open>
  C6. The registration form and the bulk upload find a duplicate username by their
  pre-check and send nothing else. The form "Add Team Member" has no pre-check: for a
  username that exists it sends the \<^verbatim>\<open>INSERT\<close>, which the store rejects. In the example
  store, for the username \<^verbatim>\<open>alice\<close>:
\<close>

theorem add_member_form_sends_insert_for_duplicate:
  "''alice'' \<in> username ` set (users demo_db) \<and>
   add_member_form toy_digest ''q7Hk2mPz0x'' ''alice'' ''Alice Two'' ''alice2@edubull.com'' ''Sales''
     demo_db = (Member_not_added, demo_db\<lparr>issued := [INSERT]\<rparr>) \<and>
   register_user toy_digest ''alice'' ''Alice Two'' ''alice2@edubull.com'' ''Sales'' ''secret123''
     ''secret123'' demo_db = (Username_already_exists, demo_db\<lparr>issued := [SELECT]\<rparr>) \<and>
   bulk_upload_row toy_digest ''q7Hk2mPz0x'' ''alice'' ''Alice Two'' ''alice2@edubull.com'' ''Sales''
     demo_db = (Bulk_username_exists, demo_db\<lparr>issued := [SELECT]\<rparr>)"
proof -
  have known: "''alice'' \<in> username ` set (users demo_db)"
    by (simp add: demo_db_def)
  have answered: "\<not> next_fails demo_db"
    by (simp add: next_fails_def demo_db_def)
  have sent: "demo_db\<lparr>faults := tl (faults demo_db), issued := issued demo_db @ [k]\<rparr>
                = demo_db\<lparr>issued := [k]\<rparr>" for k
    by (simp add: demo_db_def)
  show ?thesis
    using known
    by (simp add: add_member_form_duplicate [OF known]
          register_duplicate_prechecked [OF known answered]
          bulk_duplicate_prechecked [OF known answered] sent)
qed

subsection \<open>Comment and mention engine\<close>

text \<open>The id that \<^verbatim>\<open>add_comment\<close> returns is never a true value.\<close>

lemma add_comment_id:
  "fst (add_comment tid uid text d) = None \<or> fst (add_comment tid uid text d) = Some 0"
  by (simp add: add_comment_def execute_query_def select_last_insert_id_def Let_def split_def)

lemma add_comment_served:
  assumes "faults d = []"
  shows "fst (add_comment tid uid text d) = Some 0"
  using assms
  by (simp add: add_comment_def execute_query_def next_fails_def select_last_insert_id_def
        insert_comment_def Let_def split_def)

lemma add_comment_keeps_tables:
  "user_mentions (snd (add_comment tid uid text d)) = user_mentions d \<and>
   notifications (snd (add_comment tid uid text d)) = notifications d"
  by (simp add: add_comment_def execute_query_def insert_comment_def select_last_insert_id_def
        Let_def split_def)

lemma extract_mentions_keeps_tables:
  "user_mentions (snd (extract_mentions text d)) = user_mentions d \<and>
   notifications (snd (extract_mentions text d)) = notifications d"
  by (simp add: extract_mentions_def get_all_users_def execute_query_def select_all_users_def
        Let_def split_def)

lemma extract_mentions_served:
  assumes "\<not> next_fails d"
  shows "fst (extract_mentions text d) =
           Inr (mentioned_user_ids (map listed_of (sort_key full_name (users d))) text)"
  using assms
  by (simp add: extract_mentions_def get_all_users_def execute_query_def select_all_users_def
        Let_def)

text \<open>
  So no submission reaches the loop over the mentioned users: whatever the body and
  whatever the store does, the Mentions and the Notifications are left as they were.
\<close>

lemma submit_comment_never_fans_out:
  "user_mentions (snd (submit_comment sid sname tid title body d)) = user_mentions d \<and>
   notifications (snd (submit_comment sid sname tid title body d)) = notifications d"
proof (cases "body = []")
  case True
  then show ?thesis by (simp add: submit_comment_def)
next
  case False
  show ?thesis
  proof (cases "fst (extract_mentions body d)")
    case (Inl e)
    then have "submit_comment sid sname tid title body d = (Inl e, snd (extract_mentions body d))"
      using False by (simp add: submit_comment_def split_def)
    then show ?thesis using extract_mentions_keeps_tables [of body d] by simp
  next
    case (Inr ids)
    let ?d1 = "snd (extract_mentions body d)"
    let ?d2 = "snd (add_comment tid sid body ?d1)"
    from add_comment_id [of tid sid body ?d1]
    have "snd (submit_comment sid sname tid title body d) = ?d2"
      using False Inr by (auto simp: submit_comment_def split_def)
    then show ?thesis
      using add_comment_keeps_tables [of tid sid body ?d1] extract_mentions_keeps_tables [of body d]
      by simp
  qed
qed

text \<open>The loop itself, were it reached, adds one Mention and one Notification per id.\<close>

lemma notify_mentions_served:
  assumes "faults d = []"
  shows "faults (notify_mentions cid content link ids d) = [] \<and>
         user_mentions (notify_mentions cid content link ids d) =
           user_mentions d @
           map (\<lambda>uid. \<lparr>mention_comment_id = cid, mention_user_id = uid, mention_is_read = False\<rparr>) ids \<and>
         (\<exists>new. notifications (notify_mentions cid content link ids d) = notifications d @ new \<and>
            map (\<lambda>n. (notification_user_id n, notification_content n, notification_link n, is_read n)) new
              = map (\<lambda>uid. (uid, content, Some link, False)) ids)"
  using assms
proof (induction ids arbitrary: d)
  case Nil
  then show ?case by simp
next
  case (Cons uid rest)
  let ?d2 = "snd (add_notification uid content (Some link) (snd (add_mention cid uid d)))"
  have step: "notify_mentions cid content link (uid # rest) d = notify_mentions cid content link rest ?d2"
    by (simp add: split_def)
  have f2: "faults ?d2 = []"
    and m2: "user_mentions ?d2 = user_mentions d @
               [\<lparr>mention_comment_id = cid, mention_user_id = uid, mention_is_read = False\<rparr>]"
    and n2: "notifications ?d2 = notifications d @
               [\<lparr>notification_id = next_id (map notification_id (notifications d)),
                 notification_user_id = uid, notification_content = content,
                 notification_link = Some link, is_read = False,
                 notification_created_at = now d\<rparr>]"
    using Cons.prems
    by (simp_all add: add_notification_def add_mention_def execute_query_def next_fails_def
          insert_notification_def insert_mention_def Let_def)
  from Cons.IH [OF f2] obtain new where
    ih: "faults (notify_mentions cid content link rest ?d2) = []"
        "user_mentions (notify_mentions cid content link rest ?d2) =
           user_mentions ?d2 @
           map (\<lambda>uid. \<lparr>mention_comment_id = cid, mention_user_id = uid, mention_is_read = False\<rparr>) rest"
        "notifications (notify_mentions cid content link rest ?d2) = notifications ?d2 @ new"
        "map (\<lambda>n. (notification_user_id n, notification_content n, notification_link n, is_read n)) new
              = map (\<lambda>uid. (uid, content, Some link, False)) rest"
    by blast
  show ?case
    unfolding step
    using ih m2 n2 by simp
qed

lemma distinct_listed_usernames:
  assumes "distinct (map username us)"
  shows "distinct (map fst (rev (map (\<lambda>u. (listed_username u, listed_id u))
            (map listed_of (sort_key full_name us)))))"
proof -
  have "map fst (rev (map (\<lambda>u. (listed_username u, listed_id u)) (map listed_of (sort_key full_name us))))
          = rev (map username (sort_key full_name us))"
    by (simp add: rev_map listed_of_def o_def)
  moreover have "distinct (map username (sort_key full_name us))"
    using assms by (simp add: distinct_map)
  ultimately show ?thesis by simp
qed

lemma username_map_Some:
  assumes "distinct (map username us)"
  shows "username_map (map listed_of (sort_key full_name us)) name = Some i \<longleftrightarrow>
           (\<exists>u \<in> set us. username u = name \<and> user_id u = i)"
proof -
  let ?ps = "rev (map (\<lambda>u. (listed_username u, listed_id u)) (map listed_of (sort_key full_name us)))"
  have "map_of ?ps name = Some i \<longleftrightarrow> (name, i) \<in> set ?ps"
    using distinct_listed_usernames [OF assms] by (rule map_of_eq_Some_iff)
  also have "\<dots> \<longleftrightarrow> (\<exists>u \<in> set us. username u = name \<and> user_id u = i)"
    by (auto simp: listed_of_def)
  finally show ?thesis by (simp add: username_map_def)
qed

lemma username_map_of_user:
  assumes "distinct (map username us)" and "distinct (map user_id us)" and "u \<in> set us"
  shows "username_map (map listed_of (sort_key full_name us)) name = Some (user_id u) \<longleftrightarrow>
           name = username u"
proof -
  have inj: "inj_on user_id (set us)" using assms(2) by (simp add: distinct_map)
  show ?thesis
    unfolding username_map_Some [OF assms(1)]
    using assms(3) inj by (auto dest: inj_onD)
qed

lemma username_map_None:
  assumes "distinct (map username us)"
  shows "username_map (map listed_of (sort_key full_name us)) name = None \<longleftrightarrow>
           name \<notin> username ` set us"
proof -
  have "username_map (map listed_of (sort_key full_name us)) name \<noteq> None \<longleftrightarrow>
          (\<exists>i. username_map (map listed_of (sort_key full_name us)) name = Some i)"
    by auto
  also have "\<dots> \<longleftrightarrow> name \<in> username ` set us"
    unfolding username_map_Some [OF assms] by auto
  finally show ?thesis by blast
qed

lemma count_resolved:
  assumes "\<And>name. m name = Some i \<longleftrightarrow> name = key"
  shows "count_list (concat (map (\<lambda>name. case m name of None \<Rightarrow> [] | Some j \<Rightarrow> [j]) names)) i
           = count_list names key"
proof (induction names)
  case Nil
  show ?case by simp
next
  case (Cons name rest)
  show ?case
  proof (cases "m name")
    case None
    with assms [of name] have "name \<noteq> key" by auto
    with None Cons show ?thesis by simp
  next
    case (Some j)
    with assms [of name] have "j = i \<longleftrightarrow> name = key" by auto
    with Some Cons show ?thesis by auto
  qed
qed

lemma length_resolved:
  "length (concat (map (\<lambda>name. case m name of None \<Rightarrow> [] | Some j \<Rightarrow> [j]) names))
     = length (filter (\<lambda>name. m name \<noteq> None) names)"
  by (induction names) (auto split: option.splits)

lemma mentioned_ids_of_user:
  assumes "distinct (map username us)" and "distinct (map user_id us)" and "u \<in> set us"
  shows "count_list (mentioned_user_ids (map listed_of (sort_key full_name us)) text) (user_id u)
           = count_list (find_mentions text) (username u)"
  unfolding mentioned_user_ids_def
  by (rule count_resolved) (rule username_map_of_user [OF assms])

lemma mentioned_ids_known_only:
  assumes "distinct (map username us)"
  shows "length (mentioned_user_ids (map listed_of (sort_key full_name us)) text)
           = length (filter (\<lambda>name. name \<in> username ` set us) (find_mentions text))"
  unfolding mentioned_user_ids_def length_resolved
  using username_map_None [OF assms] by simp

text \<open>
  The ids that \<^verbatim>\<open>extract_mentions\<close> returns hold the id of a user once for every
  occurrence of the user's name among the \<^verbatim>\<open>@\<close> tokens; names of nobody add nothing.
  (Usernames and user ids are unique, as the table declares.)
\<close>

lemma extracted_ids_per_occurrence:
  assumes "\<not> next_fails d"
    and "distinct (map username (users d))" and "distinct (map user_id (users d))"
    and "u \<in> set (users d)"
  shows "\<exists>ids. fst (extract_mentions body d) = Inr ids \<and>
           count_list ids (user_id u) = count_list (find_mentions body) (username u) \<and>
           length ids = length (filter (\<lambda>name. name \<in> username ` set (users d)) (find_mentions body))"
  using extract_mentions_served [OF assms(1), of body] mentioned_ids_of_user [OF assms(2,3,4), of body]
    mentioned_ids_known_only [OF assms(2), of body]
  by simp

text \<open>
  C2. A comment that names the known user alice once, submitted by carol on task 1 of the
  example store with every statement served: \<^verbatim>\<open>extract_mentions\<close> finds alice (user 1)
  and the comment is stored, but \<^verbatim>\<open>add_comment\<close> returns the id 0, the guard
  \<^verbatim>\<open>if comment_id and mentioned_users\<close> is false, and no Mention and no Notification is
  created. A comment that names only the unknown ghost is stored too, without error and
  without Mention or Notification.
\<close>

theorem known_mention_creates_nothing:
  "''alice'' \<in> username ` set (users demo_db) \<and>
   fst (extract_mentions ''@alice please review'' demo_db) = Inr [1] \<and>
   fst (add_comment 1 2 ''@alice please review''
          (snd (extract_mentions ''@alice please review'' demo_db))) = Some 0 \<and>
   fst (submit_comment 2 ''Carol Iyer'' 1 ''Quarterly report'' ''@alice please review'' demo_db)
     = Inr Comment_added \<and>
   map (\<lambda>c. (comment_id c, comment_text c))
     (comments (snd (submit_comment 2 ''Carol Iyer'' 1 ''Quarterly report''
        ''@alice please review'' demo_db))) = [(1, ''@alice please review'')] \<and>
   user_mentions (snd (submit_comment 2 ''Carol Iyer'' 1 ''Quarterly report''
      ''@alice please review'' demo_db)) = [] \<and>
   notifications (snd (submit_comment 2 ''Carol Iyer'' 1 ''Quarterly report''
      ''@alice please review'' demo_db)) = notifications demo_db \<and>
   fst (extract_mentions ''@ghost please review'' demo_db) = Inr [] \<and>
   fst (submit_comment 2 ''Carol Iyer'' 1 ''Quarterly report'' ''@ghost please review'' demo_db)
     = Inr Comment_added \<and>
   user_mentions (snd (submit_comment 2 ''Carol Iyer'' 1 ''Quarterly report''
      ''@ghost please review'' demo_db)) = [] \<and>
   notifications (snd (submit_comment 2 ''Carol Iyer'' 1 ''Quarterly report''
      ''@ghost please review'' demo_db)) = notifications demo_db"
  by code_simp

text \<open>
  C10. A comment that names alice twice: \<^verbatim>\<open>extract_mentions\<close> returns her id twice, so
  nothing is deduplicated, and the loop run with the id 1 of the stored comment would add
  two Mentions and two Notifications for her. The submission adds none: the id it gets
  from \<^verbatim>\<open>add_comment\<close> is 0.
\<close>

theorem repeated_mention_creates_nothing:
  "find_mentions ''@alice and again @alice'' = [''alice'', ''alice''] \<and>
   fst (extract_mentions ''@alice and again @alice'' demo_db) = Inr [1, 1] \<and>
   user_mentions
     (notify_mentions 1 (mention_content ''Carol Iyer'' ''Quarterly report'') (task_link 1) [1, 1]
        demo_db)
     = [\<lparr>mention_comment_id = 1, mention_user_id = 1, mention_is_read = False\<rparr>,
        \<lparr>mention_comment_id = 1, mention_user_id = 1, mention_is_read = False\<rparr>] \<and>
   map (\<lambda>n. (notification_user_id n, notification_link n, is_read n))
     (drop 4 (notifications
        (notify_mentions 1 (mention_content ''Carol Iyer'' ''Quarterly report'') (task_link 1)
           [1, 1] demo_db)))
     = [(1, Some ''/task/1'', False), (1, Some ''/task/1'', False)] \<and>
   fst (submit_comment 2 ''Carol Iyer'' 1 ''Quarterly report'' ''@alice and again @alice''
          demo_db) = Inr Comment_added \<and>
   map comment_id (comments (snd (submit_comment 2 ''Carol Iyer'' 1 ''Quarterly report''
      ''@alice and again @alice'' demo_db))) = [1] \<and>
   user_mentions (snd (submit_comment 2 ''Carol Iyer'' 1 ''Quarterly report''
      ''@alice and again @alice'' demo_db)) = [] \<and>
   notifications (snd (submit_comment 2 ''Carol Iyer'' 1 ''Quarterly report''
      ''@alice and again @alice'' demo_db)) = notifications demo_db"
  by code_simp

subsection \<open>Task status transition\<close>

lemma listing_row_keys: "listing_row t assignee reporter ''assignee_id'' = None"
  by (simp add: listing_row_def)

lemma listed_rows_have_no_assignee_id:
  assumes "select_tasks_by_status dep sid d = Some (rows, d2)"
  shows "\<forall>task \<in> set rows. task ''assignee_id'' = None"
  using assms by (auto simp: select_tasks_by_status_def listing_row_keys)

lemma statuses_read_keeps_tables:
  "notifications (snd (get_all_statuses_with_id d)) = notifications d \<and>
   tasks (snd (get_all_statuses_with_id d)) = tasks d \<and>
   statuses (snd (get_all_statuses_with_id d)) = statuses d"
  by (simp add: get_all_statuses_with_id_def execute_query_def select_statuses_def Let_def)

lemma status_update_keeps_notifications:
  "notifications (snd (execute_query UPDATE (update_task_status s tid) d)) = notifications d"
  by (simp add: execute_query_def update_task_status_def Let_def)

lemma move_buttons_never_notify:
  assumes "\<forall>task \<in> set rows. task ''assignee_id'' = None"
  shows "notifications (snd (move_buttons pressed sid rows d)) = notifications d"
  using assms
proof (induction rows arbitrary: d)
  case Nil
  show ?case by simp
next
  case (Cons task rest)
  then have key: "task ''assignee_id'' = None" and ih: "\<And>d. notifications (snd (move_buttons pressed sid rest d)) = notifications d"
    by simp_all
  show ?case
    using statuses_read_keeps_tables [of d]
    by (simp add: key ih split_def Let_def status_update_keeps_notifications
          split: option.splits)
qed

lemma status_move_never_notifies:
  "notifications (snd (show_department_tasks_by_status dep sid pressed d)) = notifications d"
proof (cases "execute_query SELECT (select_tasks_by_status dep sid) d")
  case (Pair listed d1)
  then have d1: "notifications d1 = notifications d"
    by (auto simp: execute_query_def select_tasks_by_status_def Let_def split: if_splits)
  show ?thesis
  proof (cases listed)
    case None
    with Pair d1 show ?thesis
      by (simp add: show_department_tasks_by_status_def truthy_def)
  next
    case (Some rows)
    with Pair have "select_tasks_by_status dep sid
        (d\<lparr>faults := tl (faults d), issued := issued d @ [SELECT]\<rparr>) = Some (rows, d1)"
      by (auto simp: execute_query_def Let_def split: if_splits option.splits)
    then have "\<forall>task \<in> set rows. task ''assignee_id'' = None"
      by (rule listed_rows_have_no_assignee_id)
    then have "notifications (snd (move_buttons pressed sid rows d1)) = notifications d1"
      by (rule move_buttons_never_notify)
    with Pair Some d1 show ?thesis
      by (simp add: show_department_tasks_by_status_def or_empty_def)
  qed
qed

lemma statuses_read_cases:
  "fst (get_all_statuses_with_id d) = [] \<or> fst (get_all_statuses_with_id d) = status_list_of d"
  by (simp add: get_all_statuses_with_id_def execute_query_def select_statuses_def Let_def
        or_empty_def status_list_of_def)

lemma status_update_keeps_statuses:
  "statuses (snd (execute_query UPDATE (update_task_status s tid) d)) = statuses d"
  by (simp add: execute_query_def update_task_status_def Let_def)

lemma failed_update_keeps_tasks:
  "fst (execute_query UPDATE (update_task_status s tid) d) = None \<Longrightarrow>
   tasks (snd (execute_query UPDATE (update_task_status s tid) d)) = tasks d"
  by (auto simp: execute_query_def update_task_status_def Let_def split: if_splits)

lemma served_update_moves_task:
  "fst (execute_query UPDATE (update_task_status s tid) d) \<noteq> None \<Longrightarrow>
   tasks (snd (execute_query UPDATE (update_task_status s tid) d)) =
     map (\<lambda>t. if task_id t = tid then t\<lparr>task_status_id := s\<rparr> else t) (tasks d)"
  by (auto simp: execute_query_def update_task_status_def Let_def split: if_splits)

lemma notification_keeps_tasks:
  "tasks (snd (add_notification uid content link d)) = tasks d"
  by (simp add: add_notification_def execute_query_def insert_notification_def Let_def)

lemma terminal_status_no_button:
  assumes "first_index (\<lambda>s. fst s = sid) (status_list_of d) = Some i"
    and "Suc i = length (status_list_of d)"
  shows "fst (move_buttons pressed sid rows d) = Nothing_moved \<and>
         tasks (snd (move_buttons pressed sid rows d)) = tasks d"
  using assms
proof (induction rows arbitrary: d)
  case Nil
  show ?case by simp
next
  case (Cons task rest)
  let ?d1 = "snd (get_all_statuses_with_id d)"
  have same: "status_list_of ?d1 = status_list_of d" and tasks1: "tasks ?d1 = tasks d"
    using statuses_read_keeps_tables [of d] by (simp_all add: status_list_of_def)
  from Cons.IH [of ?d1] Cons.prems same tasks1
  have ih: "fst (move_buttons pressed sid rest ?d1) = Nothing_moved"
    "tasks (snd (move_buttons pressed sid rest ?d1)) = tasks d"
    by simp_all
  from statuses_read_cases [of d] show ?case
  proof
    assume "fst (get_all_statuses_with_id d) = []"
    then show ?thesis using ih by (simp add: split_def)
  next
    assume "fst (get_all_statuses_with_id d) = status_list_of d"
    then show ?thesis using ih Cons.prems by (simp add: split_def)
  qed
qed

lemma move_is_one_step:
  assumes "move_buttons pressed sid rows d = (Moved name, d2)"
  shows "\<exists>i. first_index (\<lambda>s. fst s = sid) (status_list_of d) = Some i \<and>
             Suc i < length (status_list_of d) \<and>
             snd (status_list_of d ! Suc i) = name \<and>
             tasks d2 = map (\<lambda>t. if task_id t = pressed
                                  then t\<lparr>task_status_id := fst (status_list_of d ! Suc i)\<rparr> else t)
                          (tasks d)"
  using assms
proof (induction rows arbitrary: d)
  case Nil
  then show ?case by simp
next
  case (Cons task rest)
  let ?goal = ?case
  let ?d1 = "snd (get_all_statuses_with_id d)"
  have same: "status_list_of ?d1 = status_list_of d" and tasks1: "tasks ?d1 = tasks d"
    using statuses_read_keeps_tables [of d] by (simp_all add: status_list_of_def)
  have later: "move_buttons pressed sid rest ?d1 = (Moved name, d2) \<Longrightarrow> ?goal"
    using Cons.IH [of ?d1] by (simp only: same tasks1)
  from statuses_read_cases [of d] show ?goal
  proof
    assume "fst (get_all_statuses_with_id d) = []"
    with Cons.prems later show ?thesis by (simp add: split_def)
  next
    assume full: "fst (get_all_statuses_with_id d) = status_list_of d"
    show ?thesis
    proof (cases "first_index (\<lambda>s. fst s = sid) (status_list_of d)")
      case None
      with Cons.prems full later show ?thesis by (simp add: split_def)
    next
      case (Some i)
      show ?thesis
      proof (cases "Suc i < length (status_list_of d) \<and> task ''id'' = Some (Num pressed)")
        case False
        with Cons.prems full Some later show ?thesis by (auto simp: split_def)
      next
        case True
        let ?next = "status_list_of d ! Suc i"
        let ?u = "execute_query UPDATE (update_task_status (fst ?next) pressed) ?d1"
        show ?thesis
        proof (cases "fst ?u = None")
          case failed: True
          let ?d2 = "snd ?u"
          have same2: "status_list_of ?d2 = status_list_of d" and tasks2: "tasks ?d2 = tasks d"
            using status_update_keeps_statuses [of "fst ?next" pressed ?d1]
              failed_update_keeps_tasks [OF failed] same tasks1
              statuses_read_keeps_tables [of d]
            by (simp_all add: status_list_of_def)
          have "move_buttons pressed sid rest ?d2 = (Moved name, d2) \<Longrightarrow> ?goal"
            using Cons.IH [of ?d2] by (simp only: same2 tasks2)
          with Cons.prems full Some True failed show ?thesis
            by (simp add: split_def Let_def)
        next
          case served: False
          from served_update_moves_task [OF served] tasks1
          have moved: "tasks (snd ?u) =
              map (\<lambda>t. if task_id t = pressed then t\<lparr>task_status_id := fst ?next\<rparr> else t) (tasks d)"
            by simp
          from Cons.prems full Some True served
          have "name = snd ?next \<and> tasks d2 = tasks (snd ?u)"
            by (auto simp: split_def Let_def notification_keeps_tasks
                  split: option.splits val.splits if_splits)
          with moved Some True show ?thesis by simp
        qed
      qed
    qed
  qed
qed


lemma task_listing_keeps_tables:
  "tasks (snd (execute_query SELECT (select_tasks_by_status dep sid) d)) = tasks d \<and>
   statuses (snd (execute_query SELECT (select_tasks_by_status dep sid) d)) = statuses d"
  by (simp add: execute_query_def select_tasks_by_status_def Let_def)

lemma terminal_status_is_no_op:
  assumes "first_index (\<lambda>s. fst s = sid) (status_list_of d) = Some i"
    and "Suc i = length (status_list_of d)"
  shows "fst (show_department_tasks_by_status dep sid pressed d) = Nothing_moved \<and>
         tasks (snd (show_department_tasks_by_status dep sid pressed d)) = tasks d \<and>
         notifications (snd (show_department_tasks_by_status dep sid pressed d)) = notifications d"
proof -
  let ?q = "execute_query SELECT (select_tasks_by_status dep sid) d"
  have same: "status_list_of (snd ?q) = status_list_of d" and tasks1: "tasks (snd ?q) = tasks d"
    using task_listing_keeps_tables [of dep sid d] by (simp_all add: status_list_of_def)
  have "fst (move_buttons pressed sid rows (snd ?q)) = Nothing_moved \<and>
        tasks (snd (move_buttons pressed sid rows (snd ?q))) = tasks (snd ?q)" for rows
    using terminal_status_no_button [of sid "snd ?q" i pressed rows] assms same by simp
  then show ?thesis
    using status_move_never_notifies [of dep sid pressed d] tasks1
    by (simp add: show_department_tasks_by_status_def split_def Let_def)
qed

lemma status_move_is_one_step:
  assumes "show_department_tasks_by_status dep sid pressed d = (Moved name, d2)"
  shows "\<exists>i. first_index (\<lambda>s. fst s = sid) (status_list_of d) = Some i \<and>
             Suc i < length (status_list_of d) \<and>
             snd (status_list_of d ! Suc i) = name \<and>
             tasks d2 = map (\<lambda>t. if task_id t = pressed
                                  then t\<lparr>task_status_id := fst (status_list_of d ! Suc i)\<rparr> else t)
                          (tasks d)"
proof -
  let ?q = "execute_query SELECT (select_tasks_by_status dep sid) d"
  have same: "status_list_of (snd ?q) = status_list_of d" and tasks1: "tasks (snd ?q) = tasks d"
    using task_listing_keeps_tables [of dep sid d] by (simp_all add: status_list_of_def)
  from assms have "move_buttons pressed sid (or_empty (fst ?q)) (snd ?q) = (Moved name, d2)"
    by (simp add: show_department_tasks_by_status_def split_def Let_def split: if_splits)
  from move_is_one_step [OF this] show ?thesis
    by (simp only: same tasks1)
qed

text \<open>
  C3. The status move of \<^verbatim>\<open>show_department_tasks_by_status\<close> offers nothing for the
  last status (lemma \<open>terminal_status_is_no_op\<close>) and moves a task one step in display
  order (lemma \<open>status_move_is_one_step\<close>), but it never notifies
  (lemma \<open>status_move_never_notifies\<close>): the listing does not select
  \<^verbatim>\<open>assignee_id\<close>, so \<^verbatim>\<open>task.get('assignee_id')\<close> is \<^verbatim>\<open>None\<close> for every task.
  In the example store task 1 is assigned to carol (user 2) and is in the first status:
  the move takes it to the second status and the notifications stay as they were; for
  task 2 in the last status nothing is offered and only the two \<^verbatim>\<open>SELECT\<close>s are sent.
\<close>

theorem assignee_not_notified_of_move:
  "task_assignee_id (hd (tasks demo_db)) = Some 2 \<and>
   map task_status_id (tasks demo_db) = [1, 4] \<and>
   fst (show_department_tasks_by_status 1 1 1 demo_db) = Moved ''In Progress'' \<and>
   map task_status_id (tasks (snd (show_department_tasks_by_status 1 1 1 demo_db))) = [2, 4] \<and>
   notifications (snd (show_department_tasks_by_status 1 1 1 demo_db)) = notifications demo_db \<and>
   show_department_tasks_by_status 1 4 2 demo_db
     = (Nothing_moved, demo_db\<lparr>issued := [SELECT, SELECT]\<rparr>)"
  by code_simp

subsection \<open>Batch permission update\<close>

lemma upsert_fst:
  "fst (upsert_permission uid perm d) = (\<not> next_fails (d\<lparr>faults := tl (faults d)\<rparr>))"
  by (simp add: upsert_permission_def execute_query_def next_fails_def
        select_permission_id_def update_permission_def insert_permission_def Let_def split_def)

lemma upsert_faults:
  "faults (snd (upsert_permission uid perm d)) = tl (tl (faults d))"
  by (simp add: upsert_permission_def execute_query_def
        select_permission_id_def update_permission_def insert_permission_def Let_def split_def)

lemma upsert_table:
  "user_department_permissions (snd (upsert_permission uid perm d)) =
     (if next_fails (d\<lparr>faults := tl (faults d)\<rparr>) then user_department_permissions d
      else if \<not> next_fails d \<and> grants_of uid (entry_department_id perm) d \<noteq> []
      then map (\<lambda>g. if grant_user_id g = uid \<and> grant_department_id g = entry_department_id perm
                     then g\<lparr>can_view := entry_can_view perm, can_edit := entry_can_edit perm\<rparr>
                     else g)
             (user_department_permissions d)
      else user_department_permissions d @
             [\<lparr>grant_id = next_id (map grant_id (user_department_permissions d)),
               grant_user_id = uid, grant_department_id = entry_department_id perm,
               can_view = entry_can_view perm, can_edit = entry_can_edit perm\<rparr>])"
  by (simp add: upsert_permission_def execute_query_def next_fails_def truthy_def
        select_permission_id_def update_permission_def insert_permission_def grants_of_def
        Let_def split_def)

lemma other_rows_kept:
  assumes "u \<noteq> uid \<or> dep \<noteq> dep'"
  shows "filter (\<lambda>g. grant_user_id g = u \<and> grant_department_id g = dep)
           (map (\<lambda>g. if grant_user_id g = uid \<and> grant_department_id g = dep'
                      then g\<lparr>can_view := v, can_edit := e\<rparr> else g) rows)
         = filter (\<lambda>g. grant_user_id g = u \<and> grant_department_id g = dep) rows"
  using assms by (induction rows) auto

lemma overwritten_rows:
  "filter (\<lambda>g. grant_user_id g = uid \<and> grant_department_id g = dep)
     (map (\<lambda>g. if grant_user_id g = uid \<and> grant_department_id g = dep
                then g\<lparr>can_view := v, can_edit := e\<rparr> else g) rows)
   = map (\<lambda>g. g\<lparr>can_view := v, can_edit := e\<rparr>)
       (filter (\<lambda>g. grant_user_id g = uid \<and> grant_department_id g = dep) rows)"
  by (induction rows) auto

lemma upsert_frame:
  assumes "u \<noteq> uid \<or> dep \<noteq> entry_department_id perm"
  shows "grants_of u dep (snd (upsert_permission uid perm d)) = grants_of u dep d"
proof -
  have "filter (\<lambda>g. grant_user_id g = u \<and> grant_department_id g = dep)
          [\<lparr>grant_id = i, grant_user_id = uid, grant_department_id = entry_department_id perm,
            can_view = v, can_edit = e\<rparr>] = []" for i v e
    using assms by auto
  then show ?thesis
    unfolding grants_of_def upsert_table
    by (simp add: other_rows_kept [OF assms])
qed

lemma upsert_write_failed:
  assumes "faults d = c # True # rest"
  shows "\<not> fst (upsert_permission uid perm d) \<and>
         faults (snd (upsert_permission uid perm d)) = rest \<and>
         user_department_permissions (snd (upsert_permission uid perm d))
           = user_department_permissions d"
  using assms by (simp add: upsert_fst upsert_faults upsert_table next_fails_def)

lemma upsert_served:
  assumes "\<not> next_fails d" and "\<not> next_fails (d\<lparr>faults := tl (faults d)\<rparr>)"
  shows "fst (upsert_permission uid perm d) \<and>
         (grants_of uid (entry_department_id perm) d = [] \<longrightarrow>
            length (grants_of uid (entry_department_id perm) (snd (upsert_permission uid perm d))) = 1) \<and>
         (grants_of uid (entry_department_id perm) d \<noteq> [] \<longrightarrow>
            grants_of uid (entry_department_id perm) (snd (upsert_permission uid perm d)) =
              map (\<lambda>g. g\<lparr>can_view := entry_can_view perm, can_edit := entry_can_edit perm\<rparr>)
                (grants_of uid (entry_department_id perm) d)) \<and>
         (\<forall>g \<in> set (grants_of uid (entry_department_id perm) (snd (upsert_permission uid perm d))).
            can_view g = entry_can_view perm \<and> can_edit g = entry_can_edit perm)"
proof (cases "grants_of uid (entry_department_id perm) d = []")
  case True
  with assms have "grants_of uid (entry_department_id perm) (snd (upsert_permission uid perm d))
      = [\<lparr>grant_id = next_id (map grant_id (user_department_permissions d)),
               grant_user_id = uid, grant_department_id = entry_department_id perm,
               can_view = entry_can_view perm, can_edit = entry_can_edit perm\<rparr>]"
    by (simp add: grants_of_def upsert_table)
  with assms True show ?thesis by (simp add: upsert_fst)
next
  case False
  with assms have "grants_of uid (entry_department_id perm) (snd (upsert_permission uid perm d))
      = map (\<lambda>g. g\<lparr>can_view := entry_can_view perm, can_edit := entry_can_edit perm\<rparr>)
                (grants_of uid (entry_department_id perm) d)"
    by (simp add: grants_of_def upsert_table overwritten_rows)
  with assms False show ?thesis by (simp add: upsert_fst)
qed

lemma upsert_all_frame:
  assumes "dep \<notin> entry_department_id ` set perms"
  shows "grants_of uid dep (snd (upsert_all uid perms k d)) = grants_of uid dep d"
  using assms
proof (induction perms arbitrary: k d)
  case Nil
  show ?case by simp
next
  case (Cons perm rest)
  then have "dep \<noteq> entry_department_id perm" and "dep \<notin> entry_department_id ` set rest"
    by auto
  with Cons.IH upsert_frame [of uid uid dep perm d] show ?case
    by (simp add: split_def Let_def)
qed

lemma upsert_all_bounds:
  "k \<le> fst (upsert_all uid perms k d) \<and> fst (upsert_all uid perms k d) \<le> k + length perms"
proof (induction perms arbitrary: k d)
  case Nil
  show ?case by simp
next
  case (Cons perm rest)
  let ?k1 = "if fst (upsert_permission uid perm d) then k + 1 else k"
  from Cons.IH [of ?k1 "snd (upsert_permission uid perm d)"]
  show ?case by (auto simp: split_def Let_def)
qed

lemma upsert_all_append:
  "upsert_all uid (xs @ ys) k d =
     upsert_all uid ys (fst (upsert_all uid xs k d)) (snd (upsert_all uid xs k d))"
  by (induction xs arbitrary: k d) (simp_all add: split_def Let_def)

lemma upsert_all_no_faults:
  assumes "faults d = []"
  shows "fst (upsert_all uid perms k d) = k + length perms"
  using assms
proof (induction perms arbitrary: k d)
  case Nil
  show ?case by simp
next
  case (Cons perm rest)
  have "fst (upsert_permission uid perm d)" "faults (snd (upsert_permission uid perm d)) = []"
    using Cons.prems by (simp_all add: upsert_fst upsert_faults next_fails_def)
  with Cons.IH [of "snd (upsert_permission uid perm d)" "k + 1"] show ?case
    by (simp add: split_def Let_def)
qed

lemma upsert_all_served_prefix:
  assumes "faults d = replicate (2 * length ps) False @ rest"
    and "distinct (map entry_department_id ps)"
  shows "fst (upsert_all uid ps k d) = k + length ps \<and>
         faults (snd (upsert_all uid ps k d)) = rest \<and>
         (\<forall>q \<in> set ps.
            (grants_of uid (entry_department_id q) d = [] \<longrightarrow>
               length (grants_of uid (entry_department_id q) (snd (upsert_all uid ps k d))) = 1) \<and>
            (grants_of uid (entry_department_id q) d \<noteq> [] \<longrightarrow>
               grants_of uid (entry_department_id q) (snd (upsert_all uid ps k d)) =
                 map (\<lambda>g. g\<lparr>can_view := entry_can_view q, can_edit := entry_can_edit q\<rparr>)
                   (grants_of uid (entry_department_id q) d)) \<and>
            (\<forall>g \<in> set (grants_of uid (entry_department_id q) (snd (upsert_all uid ps k d))).
               can_view g = entry_can_view q \<and> can_edit g = entry_can_edit q))"
  using assms
proof (induction ps arbitrary: k d)
  case Nil
  then show ?case by simp
next
  case (Cons p ps)
  let ?d1 = "snd (upsert_permission uid p d)"
  let ?k1 = "k + 1"
  let ?end = "snd (upsert_all uid ps ?k1 ?d1)"
  from Cons.prems(1) have fs: "faults d = False # False # replicate (2 * length ps) False @ rest"
    by simp
  then have ok0: "\<not> next_fails d" and ok1: "\<not> next_fails (d\<lparr>faults := tl (faults d)\<rparr>)"
    by (simp_all add: next_fails_def)
  note head = upsert_served [OF ok0 ok1, of uid p]
  from fs have f1: "faults ?d1 = replicate (2 * length ps) False @ rest"
    by (simp add: upsert_faults)
  from Cons.prems(2) have dist: "distinct (map entry_department_id ps)"
    and fresh: "entry_department_id p \<notin> entry_department_id ` set ps"
    by simp_all
  note ih = Cons.IH [OF f1 dist, of ?k1]
  have run: "upsert_all uid (p # ps) k d = upsert_all uid ps ?k1 ?d1"
    using head by (simp add: split_def Let_def)
  have kept: "grants_of uid (entry_department_id p) ?end = grants_of uid (entry_department_id p) ?d1"
    by (rule upsert_all_frame [OF fresh])
  have before: "grants_of uid (entry_department_id q) ?d1 = grants_of uid (entry_department_id q) d"
    if "q \<in> set ps" for q
  proof -
    from that fresh have "entry_department_id q \<noteq> entry_department_id p"
      by (metis imageI)
    then show ?thesis by (simp add: upsert_frame)
  qed
  show ?case
    unfolding run
  proof (intro conjI)
    show "fst (upsert_all uid ps ?k1 ?d1) = k + length (p # ps)" using ih by simp
    show "faults ?end = rest" using ih by simp
    show "\<forall>q \<in> set (p # ps).
            (grants_of uid (entry_department_id q) d = [] \<longrightarrow>
               length (grants_of uid (entry_department_id q) ?end) = 1) \<and>
            (grants_of uid (entry_department_id q) d \<noteq> [] \<longrightarrow>
               grants_of uid (entry_department_id q) ?end =
                 map (\<lambda>g. g\<lparr>can_view := entry_can_view q, can_edit := entry_can_edit q\<rparr>)
                   (grants_of uid (entry_department_id q) d)) \<and>
            (\<forall>g \<in> set (grants_of uid (entry_department_id q) ?end).
               can_view g = entry_can_view q \<and> can_edit g = entry_can_edit q)"
    proof
      fix q assume q: "q \<in> set (p # ps)"
      show "(grants_of uid (entry_department_id q) d = [] \<longrightarrow>
               length (grants_of uid (entry_department_id q) ?end) = 1) \<and>
            (grants_of uid (entry_department_id q) d \<noteq> [] \<longrightarrow>
               grants_of uid (entry_department_id q) ?end =
                 map (\<lambda>g. g\<lparr>can_view := entry_can_view q, can_edit := entry_can_edit q\<rparr>)
                   (grants_of uid (entry_department_id q) d)) \<and>
            (\<forall>g \<in> set (grants_of uid (entry_department_id q) ?end).
               can_view g = entry_can_view q \<and> can_edit g = entry_can_edit q)"
      proof (cases "q = p")
        case True
        with head kept show ?thesis by simp
      next
        case False
        with q have "q \<in> set ps" by simp
        with ih before [OF this] show ?thesis by simp
      qed
    qed
  qed
qed

text \<open>
  C4. The batch update makes one upsert per entry and is not atomic. When the statements
  of the first entries are served and the write of the next entry fails, then, whatever
  happens to the entries behind it: the caller is told \<open>n\<close> of \<open>N\<close> with \<open>n\<close> short of
  \<open>N\<close>, not less than the number of entries before the failure, and the number of the
  other entries when nothing else fails; for each entry before the failure the grant rows
  of its pair hold its two flags, overwritten where rows existed and as one new row
  where none did; and the grant rows of the failed entry's pair are as they were.
  (The entries are for distinct departments: one per row of the departments table.)
\<close>

theorem batch_update_not_atomic:
  assumes distinct: "distinct (map entry_department_id (ps @ p # qs))"
    and faulty: "faults d = replicate (2 * length ps) False @ c # True # fs"
  shows "(\<exists>n. fst (update_permissions uid (ps @ p # qs) d)
                = Some_not_updated n (length (ps @ p # qs)) \<and>
              length ps \<le> n \<and> n < length (ps @ p # qs) \<and>
              (fs = [] \<longrightarrow> n = length ps + length qs)) \<and>
         (\<forall>q \<in> set ps.
            (grants_of uid (entry_department_id q) d = [] \<longrightarrow>
               length (grants_of uid (entry_department_id q)
                         (snd (update_permissions uid (ps @ p # qs) d))) = 1) \<and>
            (grants_of uid (entry_department_id q) d \<noteq> [] \<longrightarrow>
               grants_of uid (entry_department_id q)
                 (snd (update_permissions uid (ps @ p # qs) d)) =
                 map (\<lambda>g. g\<lparr>can_view := entry_can_view q, can_edit := entry_can_edit q\<rparr>)
                   (grants_of uid (entry_department_id q) d)) \<and>
            (\<forall>g \<in> set (grants_of uid (entry_department_id q)
                           (snd (update_permissions uid (ps @ p # qs) d))).
               can_view g = entry_can_view q \<and> can_edit g = entry_can_edit q)) \<and>
         grants_of uid (entry_department_id p) (snd (update_permissions uid (ps @ p # qs) d))
           = grants_of uid (entry_department_id p) d"
proof -
  define dk where "dk = snd (upsert_all uid ps 0 d)"
  define dp where "dp = snd (upsert_permission uid p dk)"
  define n where "n = fst (upsert_all uid qs (length ps) dp)"
  define d' where "d' = snd (upsert_all uid qs (length ps) dp)"
  from distinct have dps: "distinct (map entry_department_id ps)"
    and p_ps: "entry_department_id p \<notin> entry_department_id ` set ps"
    and p_qs: "entry_department_id p \<notin> entry_department_id ` set qs"
    and apart: "entry_department_id ` set ps \<inter> entry_department_id ` set qs = {}"
    by auto
  have ps_qs: "entry_department_id q \<notin> entry_department_id ` set qs" if "q \<in> set ps" for q
    using that apart by (metis IntI empty_iff imageI)
  have ps_p: "entry_department_id q \<noteq> entry_department_id p" if "q \<in> set ps" for q
    using that p_ps by (metis imageI)
  note prefix = upsert_all_served_prefix [OF faulty dps, of uid 0, folded dk_def]
  from prefix have count_k: "fst (upsert_all uid ps 0 d) = length ps"
    and faults_k: "faults dk = c # True # fs" by simp_all
  note failed = upsert_write_failed [OF faults_k, of uid p, folded dp_def]
  have run: "upsert_all uid (ps @ p # qs) 0 d = (n, d')"
    using failed count_k
    by (simp add: upsert_all_append split_def Let_def dk_def [symmetric] dp_def [symmetric]
          n_def d'_def)
  have bounds: "length ps \<le> n \<and> n \<le> length ps + length qs"
    unfolding n_def by (rule upsert_all_bounds)
  have rest_served: "fs = [] \<longrightarrow> n = length ps + length qs"
    using failed upsert_all_no_faults [of dp uid qs "length ps"] by (simp add: n_def)
  have message: "update_permissions uid (ps @ p # qs) d
                   = (Some_not_updated n (length (ps @ p # qs)), d')"
    using run bounds by (simp add: update_permissions_def)
  have same_table: "grants_of uid dep dp = grants_of uid dep dk" for dep
    using failed by (simp add: grants_of_def)
  have later: "grants_of uid dep d' = grants_of uid dep dk"
    if "dep \<notin> entry_department_id ` set qs" for dep
    unfolding d'_def using upsert_all_frame [OF that, of uid "length ps" dp] same_table by simp
  have first: "\<exists>m. fst (update_permissions uid (ps @ p # qs) d)
                = Some_not_updated m (length (ps @ p # qs)) \<and>
              length ps \<le> m \<and> m < length (ps @ p # qs) \<and>
              (fs = [] \<longrightarrow> m = length ps + length qs)"
    using message bounds rest_served by (intro exI [of _ n]) simp
  have second: "\<forall>q \<in> set ps.
            (grants_of uid (entry_department_id q) d = [] \<longrightarrow>
               length (grants_of uid (entry_department_id q) d') = 1) \<and>
            (grants_of uid (entry_department_id q) d \<noteq> [] \<longrightarrow>
               grants_of uid (entry_department_id q) d' =
                 map (\<lambda>g. g\<lparr>can_view := entry_can_view q, can_edit := entry_can_edit q\<rparr>)
                   (grants_of uid (entry_department_id q) d)) \<and>
            (\<forall>g \<in> set (grants_of uid (entry_department_id q) d').
               can_view g = entry_can_view q \<and> can_edit g = entry_can_edit q)"
  proof
    fix q assume q: "q \<in> set ps"
    from later [OF ps_qs [OF q]] have "grants_of uid (entry_department_id q) d'
        = grants_of uid (entry_department_id q) dk" .
    with prefix q show "(grants_of uid (entry_department_id q) d = [] \<longrightarrow>
               length (grants_of uid (entry_department_id q) d') = 1) \<and>
            (grants_of uid (entry_department_id q) d \<noteq> [] \<longrightarrow>
               grants_of uid (entry_department_id q) d' =
                 map (\<lambda>g. g\<lparr>can_view := entry_can_view q, can_edit := entry_can_edit q\<rparr>)
                   (grants_of uid (entry_department_id q) d)) \<and>
            (\<forall>g \<in> set (grants_of uid (entry_department_id q) d').
               can_view g = entry_can_view q \<and> can_edit g = entry_can_edit q)"
      by simp
  qed
  have third: "grants_of uid (entry_department_id p) d' = grants_of uid (entry_department_id p) d"
    using later [OF p_qs] upsert_all_frame [OF p_ps, of uid 0 d] by (simp add: dk_def)
  from first second third show ?thesis
    by (simp only: message snd_conv)
qed

text \<open>
  The scenario of the specification: two entries for alice, the write of the second
  fails. The caller is told 1 of 2, and the grant on Marketing holds the new flags.
\<close>

theorem batch_update_not_atomic_witness:
  "fst (update_permissions 1
          [\<lparr>entry_department_id = 2, entry_department_name = ''Marketing'',
            entry_can_view = False, entry_can_edit = True\<rparr>,
           \<lparr>entry_department_id = 1, entry_department_name = ''Engineering'',
            entry_can_view = True, entry_can_edit = False\<rparr>] faulty_db)
     = Some_not_updated 1 2 \<and>
   grants_of 1 2 faulty_db
     = [\<lparr>grant_id = 1, grant_user_id = 1, grant_department_id = 2, can_view = True,
         can_edit = True\<rparr>] \<and>
   grants_of 1 2 (snd (update_permissions 1
          [\<lparr>entry_department_id = 2, entry_department_name = ''Marketing'',
            entry_can_view = False, entry_can_edit = True\<rparr>,
           \<lparr>entry_department_id = 1, entry_department_name = ''Engineering'',
            entry_can_view = True, entry_can_edit = False\<rparr>] faulty_db))
     = [\<lparr>grant_id = 1, grant_user_id = 1, grant_department_id = 2, can_view = False,
         can_edit = True\<rparr>] \<and>
   grants_of 1 1 (snd (update_permissions 1
          [\<lparr>entry_department_id = 2, entry_department_name = ''Marketing'',
            entry_can_view = False, entry_can_edit = True\<rparr>,
           \<lparr>entry_department_id = 1, entry_department_name = ''Engineering'',
            entry_can_view = True, entry_can_edit = False\<rparr>] faulty_db)) = []"
proof -
  let ?first = "\<lparr>entry_department_id = 2, entry_department_name = ''Marketing'',
            entry_can_view = False, entry_can_edit = True\<rparr>"
  let ?second = "\<lparr>entry_department_id = 1, entry_department_name = ''Engineering'',
            entry_can_view = True, entry_can_edit = False\<rparr>"
  have apart: "distinct (map entry_department_id ([?first] @ ?second # []))" by simp
  have faulty: "faults faulty_db = replicate (2 * length [?first]) False @ False # True # []"
    by (simp add: faulty_db_def numeral_2_eq_2)
  have before: "grants_of 1 2 faulty_db
     = [\<lparr>grant_id = 1, grant_user_id = 1, grant_department_id = 2, can_view = True,
         can_edit = True\<rparr>]" and none: "grants_of 1 1 faulty_db = []"
    by (simp_all add: grants_of_def faulty_db_def demo_db_def)
  from batch_update_not_atomic [OF apart faulty, of 1] before none
  show ?thesis by simp
qed

end
